theory Spec2Isabelle
  imports Complex_Main "HOL-Library.Word" "HOL-Library.Log_Nat"
begin

section \<open>PDFbhai: the page-composition and document-assembly pipeline\<close>

text \<open>
  A shallow embedding of \<^verbatim>\<open>services/pdfService\<close>: the per-pixel filter
  (\<^verbatim>\<open>applyFiltersToContext\<close>), the rasterizer call and the canvas set-up of
  \<^verbatim>\<open>renderPageToThumbnail\<close> and \<^verbatim>\<open>processPageImage\<close>, and the N-up assembly of
  \<^verbatim>\<open>generateFinalPdf\<close>.

  The numbers of the pixel filter are IEEE binary64 values with JavaScript's arithmetic,
  the samples of an \<^verbatim>\<open>ImageData\<close> buffer are bytes, the sizes of a canvas are the
  integers the DOM keeps, array indices and lengths are \<^typ>\<open>nat\<close>. The numbers of the
  page layout (points on the sheet) are \<^typ>\<open>real\<close>. The libraries the service calls
  (pdf.js, the canvas, pdf-lib) are parameters of the model; every call into pdf-lib is
  recorded in a trace.
\<close>

subsection \<open>JavaScript numbers\<close>

text \<open>A number is a finite binary64 value, an infinity or NaN. Zero is kept without its
  sign: the filter never divides by a computed value, so the sign of a zero is not seen.\<close>

datatype num = Fin real | PInf | NInf | NaN

definition pow2 :: "int \<Rightarrow> real" where
  "pow2 k = (if 0 \<le> k then 2 ^ nat k else 1 / 2 ^ nat (- k))"

text \<open>The binary exponent of a positive number \<open>a\<close>: the \<open>e\<close> with
  \<open>2\<^sup>e \<le> a < 2\<^sup>e\<^sup>+\<^sup>1\<close>.\<close>

definition exponent :: "real \<Rightarrow> int" where
  "exponent a =
     (if 1 \<le> a then bitlen \<lfloor>a\<rfloor> - 1
      else (let k = bitlen \<lfloor>1 / a\<rfloor> in if a < pow2 (1 - k) then - k else 1 - k))"

text \<open>Rounding to the nearest integer, a tie going to the even one.\<close>

definition round_even :: "real \<Rightarrow> int" where
  "round_even x =
     (let f = \<lfloor>x\<rfloor>
      in if x < of_int f + 0.5 then f
         else if x > of_int f + 0.5 then f + 1
         else if even f then f else f + 1)"

text \<open>Rounding a real to binary64, to nearest with ties to even: 53 significant bits,
  subnormal below \<open>2\<^sup>-\<^sup>1\<^sup>0\<^sup>2\<^sup>2\<close>, an infinity from \<open>2\<^sup>1\<^sup>0\<^sup>2\<^sup>4\<close> on.\<close>

definition round64 :: "real \<Rightarrow> num" where
  "round64 x =
     (if x = 0 then Fin 0
      else
        (let a = \<bar>x\<bar>;
             e = max (exponent a) (- 1022);
             q = pow2 (e - 52);
             r = of_int (round_even (a / q)) * q
         in if pow2 1024 \<le> r then (if x < 0 then NInf else PInf)
            else Fin (if x < 0 then - r else r)))"

text \<open>A decimal literal of the source is the binary64 value nearest to it.\<close>

definition lit :: "real \<Rightarrow> num" where
  "lit x = round64 x"

fun js_neg :: "num \<Rightarrow> num" where
  "js_neg (Fin x) = Fin (- x)"
| "js_neg PInf = NInf"
| "js_neg NInf = PInf"
| "js_neg NaN = NaN"

fun js_add :: "num \<Rightarrow> num \<Rightarrow> num" where
  "js_add NaN y = NaN"
| "js_add x NaN = NaN"
| "js_add PInf NInf = NaN"
| "js_add NInf PInf = NaN"
| "js_add PInf y = PInf"
| "js_add x PInf = PInf"
| "js_add NInf y = NInf"
| "js_add x NInf = NInf"
| "js_add (Fin x) (Fin y) = round64 (x + y)"

definition js_sub :: "num \<Rightarrow> num \<Rightarrow> num" where
  "js_sub x y = js_add x (js_neg y)"

text \<open>The sign of a number, for the product or quotient with an infinity; a zero counts
  as positive.\<close>

fun negative :: "num \<Rightarrow> bool" where
  "negative (Fin x) = (x < 0)"
| "negative NInf = True"
| "negative PInf = False"
| "negative NaN = False"

definition signed_inf :: "bool \<Rightarrow> num" where
  "signed_inf neg = (if neg then NInf else PInf)"

fun js_mul :: "num \<Rightarrow> num \<Rightarrow> num" where
  "js_mul NaN y = NaN"
| "js_mul x NaN = NaN"
| "js_mul (Fin x) (Fin y) = round64 (x * y)"
| "js_mul (Fin x) y = (if x = 0 then NaN else signed_inf (negative (Fin x) \<noteq> negative y))"
| "js_mul x (Fin y) = (if y = 0 then NaN else signed_inf (negative x \<noteq> negative (Fin y)))"
| "js_mul x y = signed_inf (negative x \<noteq> negative y)"

fun js_div :: "num \<Rightarrow> num \<Rightarrow> num" where
  "js_div NaN y = NaN"
| "js_div x NaN = NaN"
| "js_div (Fin x) (Fin y) =
     (if y = 0 then (if x = 0 then NaN else signed_inf (x < 0)) else round64 (x / y))"
| "js_div (Fin x) y = Fin 0"
| "js_div x (Fin y) = signed_inf (negative x \<noteq> negative (Fin y))"
| "js_div x y = NaN"

text \<open>\<^verbatim>\<open>Math.max\<close> and \<^verbatim>\<open>Math.min\<close> of two numbers: NaN when either is.\<close>

fun js_max :: "num \<Rightarrow> num \<Rightarrow> num" where
  "js_max NaN y = NaN"
| "js_max x NaN = NaN"
| "js_max PInf y = PInf"
| "js_max x PInf = PInf"
| "js_max NInf y = y"
| "js_max x NInf = x"
| "js_max (Fin x) (Fin y) = Fin (max x y)"

fun js_min :: "num \<Rightarrow> num \<Rightarrow> num" where
  "js_min NaN y = NaN"
| "js_min x NaN = NaN"
| "js_min NInf y = NInf"
| "js_min x NInf = NInf"
| "js_min PInf y = y"
| "js_min x PInf = x"
| "js_min (Fin x) (Fin y) = Fin (min x y)"

subsection \<open>Data model\<close>

type_synonym byte = "8 word"

record filters =
  invert :: bool
  grayscale :: bool
  whiteness :: num
  blackness :: num

text \<open>The pixel buffer of a canvas: \<^verbatim>\<open>ImageData\<close>, whose \<^verbatim>\<open>data\<close> is a
  \<^verbatim>\<open>Uint8ClampedArray\<close> of RGBA samples.\<close>

record ImageData =
  im_width :: nat
  im_height :: nat
  data :: "byte list"

text \<open>A page item and the layout settings, with the fields the service reads.\<close>

record PageItem =
  fileId :: string
  originalPageIndex :: nat
  isSelected :: bool
  rotation :: int
  filters :: filters
  drawingDataUrl :: "string option"

record LayoutSettings =
  nUp :: int
  showBorders :: bool

datatype error =
    NoPagesSelected
  | CouldNotGetCanvasContext
  | CanvasContextFailed
  | FileNotFound
  | RenderFailed string
  | EmbedFailed string

text \<open>The size of a canvas, in pixels.\<close>

record canvas =
  canvas_width :: nat
  canvas_height :: nat

text \<open>The data URL of a canvas: the JPEG it holds, with the size of that image in
  pixels.\<close>

record image_url =
  url_width :: nat
  url_height :: nat
  url_data :: "byte list"

text \<open>What the service asks of pdf-lib, and each page it starts to compose, in the order
  it happens.\<close>

datatype event =
    PdfCreate
  | PdfAddPage real real
  | Compose PageItem
  | PdfEmbedJpg "byte list"
  | PdfDrawImage "byte list" real real real real
  | PdfDrawRectangle real real real real
  | PdfSave

text \<open>The collaborators. From pdf.js: the viewport of a page at a scale (its width and
  height, or an error when the document or the page cannot be read), and the JPEG of the
  page rendered into a canvas. From the browser: whether the 2d context of the thumbnail
  canvas and of the working canvas can be had, the pixels the working canvas holds after
  the rotated \<^verbatim>\<open>drawImage\<close>, the pixels after the doodle is drawn over them, and the
  JPEG bytes of \<^verbatim>\<open>toDataURL\<close>. From pdf-lib: \<^verbatim>\<open>embedJpg\<close> (the size of the
  embedded image, or an error) and \<^verbatim>\<open>save\<close>. A data URL made from a canvas of at
  least one pixel each way is taken to load as an image.\<close>

record env =
  getViewport :: "byte list \<Rightarrow> nat \<Rightarrow> real \<Rightarrow> error + (real \<times> real)"
  thumbContext :: bool
  renderPage :: "byte list \<Rightarrow> nat \<Rightarrow> real \<Rightarrow> canvas \<Rightarrow> error + byte list"
  pageContext :: bool
  drawImage :: "image_url \<Rightarrow> int \<Rightarrow> real \<Rightarrow> real \<Rightarrow> canvas \<Rightarrow> byte list"
  drawDoodle :: "string \<Rightarrow> int \<Rightarrow> real \<Rightarrow> real \<Rightarrow> ImageData \<Rightarrow> byte list"
  toDataURL :: "ImageData \<Rightarrow> byte list"
  embedJpg :: "byte list \<Rightarrow> error + (real \<times> real)"
  save :: "event list \<Rightarrow> byte list"

subsection \<open>The pixel filter\<close>

text \<open>A store into a \<^verbatim>\<open>Uint8ClampedArray\<close> converts the number as ECMAScript's
  \<^verbatim>\<open>ToUint8Clamp\<close> does: NaN gives 0; otherwise clamp to 0..255, then round to the
  nearest integer, a tie going to the even one.\<close>

fun ToUint8Clamp :: "num \<Rightarrow> byte" where
  "ToUint8Clamp NaN = 0"
| "ToUint8Clamp PInf = 255"
| "ToUint8Clamp NInf = 0"
| "ToUint8Clamp (Fin x) = word_of_int (round_even (min (max x 0) 255))"

definition brightnessMult :: "filters \<Rightarrow> num" where
  "brightnessMult fl = js_add (lit 1) (js_div (whiteness fl) (lit 100))"

definition contrastMult :: "filters \<Rightarrow> num" where
  "contrastMult fl = js_add (lit 1) (js_div (blackness fl) (lit 100))"

definition intercept :: "filters \<Rightarrow> num" where
  "intercept fl = js_mul (lit 128) (js_sub (lit 1) (contrastMult fl))"

text \<open>The body of the loop for one pixel: from the numbers read at \<^verbatim>\<open>i\<close>, \<^verbatim>\<open>i + 1\<close>,
  \<^verbatim>\<open>i + 2\<close> to the three numbers \<^verbatim>\<open>Math.min(255, Math.max(0, c))\<close> that are stored
  back.\<close>

definition pixel_values :: "filters \<Rightarrow> num \<Rightarrow> num \<Rightarrow> num \<Rightarrow> num \<times> num \<times> num" where
  "pixel_values fl r0 g0 b0 =
     (let (r1, g1, b1) =
            (if grayscale fl
             then (let avg = js_add (js_add (js_mul (lit 0.299) r0) (js_mul (lit 0.587) g0))
                               (js_mul (lit 0.114) b0)
                   in (avg, avg, avg))
             else (r0, g0, b0));
          (r2, g2, b2) =
            (if invert fl
             then (js_sub (lit 255) r1, js_sub (lit 255) g1, js_sub (lit 255) b1)
             else (r1, g1, b1));
          (r3, g3, b3) =
            (js_mul r2 (brightnessMult fl), js_mul g2 (brightnessMult fl),
             js_mul b2 (brightnessMult fl));
          (r4, g4, b4) =
            (js_add (js_mul r3 (contrastMult fl)) (intercept fl),
             js_add (js_mul g3 (contrastMult fl)) (intercept fl),
             js_add (js_mul b3 (contrastMult fl)) (intercept fl))
      in (js_min (lit 255) (js_max (lit 0) r4),
          js_min (lit 255) (js_max (lit 0) g4),
          js_min (lit 255) (js_max (lit 0) b4)))"

definition sample :: "byte \<Rightarrow> num" where
  "sample w = Fin (real (unat w))"

text \<open>The three stores \<^verbatim>\<open>data[i] = ...\<close>, \<^verbatim>\<open>data[i + 1] = ...\<close>,
  \<^verbatim>\<open>data[i + 2] = ...\<close> of one pass of the loop.\<close>

definition store3 :: "num \<times> num \<times> num \<Rightarrow> byte list" where
  "store3 p = (case p of (r, g, b) \<Rightarrow> [ToUint8Clamp r, ToUint8Clamp g, ToUint8Clamp b])"

text \<open>The loop \<^verbatim>\<open>for (let i = 0; i < data.length; i += 4)\<close>. The fourth sample of a
  pixel is never written. A buffer from \<^verbatim>\<open>getImageData\<close> holds four samples for each
  pixel, so the equations for one or two samples are never reached there; they follow what
  the loop does on a shorter tail: a missing sample reads as \<^verbatim>\<open>undefined\<close>, NaN in
  arithmetic, and a store past the end is dropped.\<close>

fun filter_loop :: "filters \<Rightarrow> byte list \<Rightarrow> byte list" where
  "filter_loop fl (r # g # b # a # rest) =
     store3 (pixel_values fl (sample r) (sample g) (sample b)) @ a # filter_loop fl rest"
| "filter_loop fl [r, g, b] =
     store3 (pixel_values fl (sample r) (sample g) (sample b))"
| "filter_loop fl [r, g] =
     take 2 (store3 (pixel_values fl (sample r) (sample g) NaN))"
| "filter_loop fl [r] =
     take 1 (store3 (pixel_values fl (sample r) NaN NaN))"
| "filter_loop fl [] = []"

text \<open>\<^verbatim>\<open>applyFiltersToContext\<close>: read the pixels of the canvas, run the loop, write
  them back.\<close>

definition applyFiltersToContext :: "filters \<Rightarrow> ImageData \<Rightarrow> ImageData" where
  "applyFiltersToContext fl imageData = imageData\<lparr>data := filter_loop fl (data imageData)\<rparr>"

text \<open>The transform as the specification words it, one step at a time, in the arithmetic
  of the program.\<close>

definition spec_luma :: "num \<Rightarrow> num \<Rightarrow> num \<Rightarrow> num" where
  "spec_luma r g b =
     js_add (js_add (js_mul (lit 0.299) r) (js_mul (lit 0.587) g)) (js_mul (lit 0.114) b)"

definition spec_grayscale :: "filters \<Rightarrow> num \<times> num \<times> num \<Rightarrow> num \<times> num \<times> num" where
  "spec_grayscale fl p =
     (case p of (r, g, b) \<Rightarrow>
        if grayscale fl then (spec_luma r g b, spec_luma r g b, spec_luma r g b)
        else (r, g, b))"

definition each_channel :: "(num \<Rightarrow> num) \<Rightarrow> num \<times> num \<times> num \<Rightarrow> num \<times> num \<times> num" where
  "each_channel h p = (case p of (r, g, b) \<Rightarrow> (h r, h g, h b))"

definition spec_invert :: "filters \<Rightarrow> num \<Rightarrow> num" where
  "spec_invert fl c = (if invert fl then js_sub (lit 255) c else c)"

definition spec_brightness :: "filters \<Rightarrow> num \<Rightarrow> num" where
  "spec_brightness fl c = js_mul c (js_add (lit 1) (js_div (whiteness fl) (lit 100)))"

definition spec_contrast :: "filters \<Rightarrow> num \<Rightarrow> num" where
  "spec_contrast fl c =
     js_add (js_mul c (js_add (lit 1) (js_div (blackness fl) (lit 100))))
       (js_mul (lit 128) (js_sub (lit 1) (js_add (lit 1) (js_div (blackness fl) (lit 100)))))"

text \<open>Clamping to [0, 255]: below 0 gives 0, above 255 gives 255, NaN stays NaN.\<close>

fun spec_clamp :: "num \<Rightarrow> num" where
  "spec_clamp NaN = NaN"
| "spec_clamp PInf = Fin 255"
| "spec_clamp NInf = Fin 0"
| "spec_clamp (Fin x) = Fin (if x < 0 then 0 else if x > 255 then 255 else x)"

definition spec_pixel :: "filters \<Rightarrow> num \<times> num \<times> num \<Rightarrow> num \<times> num \<times> num" where
  "spec_pixel fl p =
     each_channel spec_clamp
       (each_channel (spec_contrast fl)
          (each_channel (spec_brightness fl)
             (each_channel (spec_invert fl) (spec_grayscale fl p))))"

text \<open>What a number handed to the store can be after the clamp: a value from 0 to 255, or
  NaN (which the store turns into 0).\<close>

fun clamped_or_nan :: "num \<Rightarrow> bool" where
  "clamped_or_nan (Fin x) = (0 \<le> x \<and> x \<le> 255)"
| "clamped_or_nan NaN = True"
| "clamped_or_nan PInf = False"
| "clamped_or_nan NInf = False"

definition neutral :: filters where
  "neutral = \<lparr>invert = False, grayscale = False, whiteness = Fin 0, blackness = Fin 0\<rparr>"

definition invert_only :: filters where
  "invert_only = \<lparr>invert = True, grayscale = False, whiteness = Fin 0, blackness = Fin 0\<rparr>"

text \<open>Three configurations and two buffers, to run the filter on.\<close>

definition gray_only :: filters where
  "gray_only = \<lparr>invert = False, grayscale = True, whiteness = Fin 0, blackness = Fin 0\<rparr>"

definition contrast10 :: filters where
  "contrast10 = \<lparr>invert = False, grayscale = False, whiteness = Fin 0, blackness = Fin 10\<rparr>"

definition ink_saver :: filters where
  "ink_saver = \<lparr>invert = True, grayscale = True, whiteness = Fin 12, blackness = Fin 50\<rparr>"

definition two_pixels :: ImageData where
  "two_pixels = \<lparr>im_width = 2, im_height = 1, data = [200, 100, 50, 255, 0, 0, 0, 7]\<rparr>"

definition tie_pixels :: ImageData where
  "tie_pixels = \<lparr>im_width = 3, im_height = 1,
                  data = [0, 80, 110, 255, 13, 23, 33, 9, 0, 80, 235, 0]\<rparr>"

subsection \<open>Rasterizing and composing one page\<close>

text \<open>Assigning a number to \<^verbatim>\<open>canvas.width\<close> or \<^verbatim>\<open>canvas.height\<close> converts it to an
  \<^verbatim>\<open>unsigned long\<close>: the fraction is dropped and the integer taken modulo \<open>2\<^sup>3\<^sup>2\<close>; a
  value above \<open>2\<^sup>3\<^sup>1 - 1\<close> gives the default of the attribute instead (300 for the
  width, 150 for the height).\<close>

definition to_unsigned_long :: "real \<Rightarrow> int" where
  "to_unsigned_long x = (if 0 \<le> x then \<lfloor>x\<rfloor> else \<lceil>x\<rceil>) mod 2 ^ 32"

definition canvas_size :: "nat \<Rightarrow> real \<Rightarrow> nat" where
  "canvas_size dflt x =
     (let n = to_unsigned_long x in if 2147483647 < n then dflt else nat n)"

text \<open>\<^verbatim>\<open>renderPageToThumbnail\<close>: the page is rendered into a canvas of the size of its
  viewport; the result is the data URL of that canvas, with the width and the height of the
  viewport as pdf.js gives them.\<close>

definition renderPageToThumbnail ::
  "env \<Rightarrow> byte list \<Rightarrow> nat \<Rightarrow> real \<Rightarrow> error + (image_url \<times> real \<times> real)" where
  "renderPageToThumbnail e fileData pageIndex scale =
     (case getViewport e fileData pageIndex scale of
        Inl err \<Rightarrow> Inl err
      | Inr (vw, vh) \<Rightarrow>
          if \<not> thumbContext e then Inl CouldNotGetCanvasContext
          else
            (let cv = \<lparr>canvas_width = canvas_size 300 vw, canvas_height = canvas_size 150 vh\<rparr>
             in case renderPage e fileData pageIndex scale cv of
                  Inl err \<Rightarrow> Inl err
                | Inr jpeg \<Rightarrow>
                    Inr (\<lparr>url_width = canvas_width cv, url_height = canvas_height cv,
                          url_data = jpeg\<rparr>, vw, vh)))"

definition isRotated90or270 :: "PageItem \<Rightarrow> bool" where
  "isRotated90or270 pageItem \<longleftrightarrow> rotation pageItem = 90 \<or> rotation pageItem = 270"

text \<open>Step 3 of \<^verbatim>\<open>processPageImage\<close>: the working canvas is given the height as its
  width, and the width as its height, when the rotation is 90 or 270.\<close>

definition setup_canvas :: "PageItem \<Rightarrow> real \<Rightarrow> real \<Rightarrow> canvas" where
  "setup_canvas pageItem width height =
     \<lparr>canvas_width = canvas_size 300 (if isRotated90or270 pageItem then height else width),
      canvas_height = canvas_size 150 (if isRotated90or270 pageItem then width else height)\<rparr>"

text \<open>\<^verbatim>\<open>processPageImage\<close>: rasterize at scale 1.5, draw the image rotated on the
  working canvas, filter the pixels of the whole canvas, draw the doodle when the page has
  one (an empty string counts as none), and encode the canvas as JPEG.\<close>

definition processPageImage ::
  "env \<Rightarrow> (string \<rightharpoonup> byte list) \<Rightarrow> PageItem \<Rightarrow> error + byte list" where
  "processPageImage e files pageItem =
     (case files (fileId pageItem) of
        None \<Rightarrow> Inl FileNotFound
      | Some fileData \<Rightarrow>
          (case renderPageToThumbnail e fileData (originalPageIndex pageItem) 1.5 of
             Inl err \<Rightarrow> Inl err
           | Inr (dataUrl, width, height) \<Rightarrow>
               if \<not> pageContext e then Inl CanvasContextFailed
               else
                 (let cv = setup_canvas pageItem width height;
                      drawn = \<lparr>im_width = canvas_width cv, im_height = canvas_height cv,
                               data = drawImage e dataUrl (rotation pageItem) width height cv\<rparr>;
                      filtered = applyFiltersToContext (filters pageItem) drawn;
                      final = (case drawingDataUrl pageItem of
                                 None \<Rightarrow> filtered
                               | Some doodle \<Rightarrow>
                                   if doodle = [] then filtered
                                   else filtered\<lparr>data :=
                                          drawDoodle e doodle (rotation pageItem) width height
                                            filtered\<rparr>)
                  in Inr (toDataURL e final))))"

subsection \<open>Packing pages onto sheets\<close>

text \<open>\<^verbatim>\<open>Array.prototype.slice\<close> on integer arguments: a negative index counts from the
  end, and both ends are cut to the array.\<close>

definition slice :: "'a list \<Rightarrow> int \<Rightarrow> int \<Rightarrow> 'a list" where
  "slice xs start fin =
     (let len = int (length xs);
          k = (if start < 0 then max (len + start) 0 else min start len);
          final = (if fin < 0 then max (len + fin) 0 else min fin len)
      in take (nat (final - k)) (drop (nat k) xs))"

text \<open>The loop \<^verbatim>\<open>for (let i = 0; i < activePages.length; i += itemsPerPage)\<close>. It does
  not end when \<^verbatim>\<open>itemsPerPage\<close> is 0 or negative: the result is then \<open>None\<close>.\<close>

partial_function (option) chunk_loop ::
  "'a list \<Rightarrow> int \<Rightarrow> int \<Rightarrow> 'a list list \<Rightarrow> 'a list list option" where
  "chunk_loop activePages itemsPerPage i chunkedPages =
     (if i < int (length activePages)
      then chunk_loop activePages itemsPerPage (i + itemsPerPage)
             (chunkedPages @ [slice activePages i (i + itemsPerPage)])
      else Some chunkedPages)"

declare chunk_loop.simps [code]

definition PAGE_WIDTH :: real where
  "PAGE_WIDTH = 595.28"

definition PAGE_HEIGHT :: real where
  "PAGE_HEIGHT = 841.89"

definition MARGIN :: real where
  "MARGIN = 20"

text \<open>The \<^verbatim>\<open>switch\<close> on \<^verbatim>\<open>itemsPerPage\<close>: columns, then rows.\<close>

definition gridFor :: "int \<Rightarrow> nat \<times> nat" where
  "gridFor itemsPerPage =
     (if itemsPerPage = 1 then (1, 1)
      else if itemsPerPage = 2 then (1, 2)
      else if itemsPerPage = 3 then (1, 3)
      else if itemsPerPage = 4 then (2, 2)
      else if itemsPerPage = 5 then (2, 3)
      else if itemsPerPage = 6 then (2, 3)
      else if itemsPerPage = 7 then (2, 4)
      else if itemsPerPage = 8 then (2, 4)
      else (1, 1))"

definition cols :: "int \<Rightarrow> nat" where
  "cols itemsPerPage = fst (gridFor itemsPerPage)"

definition rows :: "int \<Rightarrow> nat" where
  "rows itemsPerPage = snd (gridFor itemsPerPage)"

definition cellWidth :: "int \<Rightarrow> real" where
  "cellWidth itemsPerPage = (PAGE_WIDTH - MARGIN * 2) / real (cols itemsPerPage)"

definition cellHeight :: "int \<Rightarrow> real" where
  "cellHeight itemsPerPage = (PAGE_HEIGHT - MARGIN * 2) / real (rows itemsPerPage)"

subsection \<open>Placing an image in its cell\<close>

definition colIndex :: "int \<Rightarrow> nat \<Rightarrow> nat" where
  "colIndex itemsPerPage i = i mod cols itemsPerPage"

definition rowIndex :: "int \<Rightarrow> nat \<Rightarrow> nat" where
  "rowIndex itemsPerPage i = i div cols itemsPerPage"

definition scaleX :: "int \<Rightarrow> real \<Rightarrow> real" where
  "scaleX itemsPerPage imgWidth = (cellWidth itemsPerPage - 10) / imgWidth"

definition scaleY :: "int \<Rightarrow> real \<Rightarrow> real" where
  "scaleY itemsPerPage imgHeight = (cellHeight itemsPerPage - 10) / imgHeight"

definition scale :: "int \<Rightarrow> real \<Rightarrow> real \<Rightarrow> real" where
  "scale itemsPerPage imgWidth imgHeight =
     min (scaleX itemsPerPage imgWidth) (scaleY itemsPerPage imgHeight)"

definition drawWidth :: "int \<Rightarrow> real \<Rightarrow> real \<Rightarrow> real" where
  "drawWidth itemsPerPage imgWidth imgHeight = imgWidth * scale itemsPerPage imgWidth imgHeight"

definition drawHeight :: "int \<Rightarrow> real \<Rightarrow> real \<Rightarrow> real" where
  "drawHeight itemsPerPage imgWidth imgHeight = imgHeight * scale itemsPerPage imgWidth imgHeight"

definition cell_x :: "int \<Rightarrow> nat \<Rightarrow> real" where
  "cell_x itemsPerPage i = MARGIN + real (colIndex itemsPerPage i) * cellWidth itemsPerPage"

definition cell_y :: "int \<Rightarrow> nat \<Rightarrow> real" where
  "cell_y itemsPerPage i =
     PAGE_HEIGHT - MARGIN - (real (rowIndex itemsPerPage i) + 1) * cellHeight itemsPerPage"

definition image_x :: "int \<Rightarrow> nat \<Rightarrow> real \<Rightarrow> real \<Rightarrow> real" where
  "image_x itemsPerPage i imgWidth imgHeight =
     MARGIN + real (colIndex itemsPerPage i) * cellWidth itemsPerPage
       + (cellWidth itemsPerPage - drawWidth itemsPerPage imgWidth imgHeight) / 2"

definition image_y :: "int \<Rightarrow> nat \<Rightarrow> real \<Rightarrow> real \<Rightarrow> real" where
  "image_y itemsPerPage i imgWidth imgHeight =
     PAGE_HEIGHT - MARGIN - (real (rowIndex itemsPerPage i) + 1) * cellHeight itemsPerPage
       + (cellHeight itemsPerPage - drawHeight itemsPerPage imgWidth imgHeight) / 2"

subsection \<open>Assembling the document\<close>

text \<open>One pass of the inner loop, for the item at index \<^verbatim>\<open>i\<close> of its chunk: compose the
  page, embed the JPEG, draw it, and draw the border of the cell when the layout asks for
  it. An error of a collaborator ends the pass there.\<close>

definition draw_item ::
  "env \<Rightarrow> (string \<rightharpoonup> byte list) \<Rightarrow> LayoutSettings \<Rightarrow> nat \<Rightarrow> PageItem \<Rightarrow> (error + unit) \<times> event list" where
  "draw_item e files layout i pageItem =
     (case processPageImage e files pageItem of
        Inl err \<Rightarrow> (Inl err, [Compose pageItem])
      | Inr imageBytes \<Rightarrow>
          (case embedJpg e imageBytes of
             Inl err \<Rightarrow> (Inl err, [Compose pageItem, PdfEmbedJpg imageBytes])
           | Inr (imgWidth, imgHeight) \<Rightarrow>
               (Inr (),
                [Compose pageItem, PdfEmbedJpg imageBytes,
                 PdfDrawImage imageBytes
                   (image_x (nUp layout) i imgWidth imgHeight)
                   (image_y (nUp layout) i imgWidth imgHeight)
                   (drawWidth (nUp layout) imgWidth imgHeight)
                   (drawHeight (nUp layout) imgWidth imgHeight)]
                @ (if showBorders layout
                   then [PdfDrawRectangle (cell_x (nUp layout) i) (cell_y (nUp layout) i)
                           (cellWidth (nUp layout)) (cellHeight (nUp layout))]
                   else []))))"

text \<open>The inner loop \<^verbatim>\<open>for (let i = 0; i < chunk.length; i++)\<close>, from index \<^verbatim>\<open>i\<close>
  on.\<close>

fun draw_chunk ::
  "env \<Rightarrow> (string \<rightharpoonup> byte list) \<Rightarrow> LayoutSettings \<Rightarrow> nat \<Rightarrow> PageItem list \<Rightarrow> (error + unit) \<times> event list" where
  "draw_chunk e files layout i [] = (Inr (), [])"
| "draw_chunk e files layout i (pageItem # rest) =
     (case draw_item e files layout i pageItem of
        (Inl err, evs) \<Rightarrow> (Inl err, evs)
      | (Inr u, evs) \<Rightarrow>
          (case draw_chunk e files layout (Suc i) rest of
             (res, evs') \<Rightarrow> (res, evs @ evs')))"

text \<open>The outer loop \<^verbatim>\<open>for (const chunk of chunkedPages)\<close>: a new sheet, then its
  items.\<close>

fun draw_chunks ::
  "env \<Rightarrow> (string \<rightharpoonup> byte list) \<Rightarrow> LayoutSettings \<Rightarrow> PageItem list list \<Rightarrow> (error + unit) \<times> event list" where
  "draw_chunks e files layout [] = (Inr (), [])"
| "draw_chunks e files layout (chunk # chunks) =
     (case draw_chunk e files layout 0 chunk of
        (Inl err, evs) \<Rightarrow> (Inl err, PdfAddPage PAGE_WIDTH PAGE_HEIGHT # evs)
      | (Inr u, evs) \<Rightarrow>
          (case draw_chunks e files layout chunks of
             (res, evs') \<Rightarrow> (res, PdfAddPage PAGE_WIDTH PAGE_HEIGHT # evs @ evs')))"

text \<open>\<^verbatim>\<open>generateFinalPdf\<close>: the bytes of the document or the error thrown, with the
  events up to there; \<open>None\<close> when the chunking loop does not end.\<close>

definition generateFinalPdf ::
  "env \<Rightarrow> PageItem list \<Rightarrow> (string \<rightharpoonup> byte list) \<Rightarrow> LayoutSettings
     \<Rightarrow> ((error + byte list) \<times> event list) option" where
  "generateFinalPdf e pages files layout =
     (let activePages = filter isSelected pages
      in if length activePages = 0 then Some (Inl NoPagesSelected, [PdfCreate])
         else
           (case chunk_loop activePages (nUp layout) 0 [] of
              None \<Rightarrow> None
            | Some chunkedPages \<Rightarrow>
                (case draw_chunks e files layout chunkedPages of
                   (Inl err, evs) \<Rightarrow> Some (Inl err, PdfCreate # evs)
                 | (Inr u, evs) \<Rightarrow>
                     Some (Inr (save e (PdfCreate # evs)), PdfCreate # evs @ [PdfSave]))))"

subsection \<open>Concrete inputs\<close>

text \<open>Collaborators that always succeed, for a page whose viewport is 100.5 by 200.75: the
  JPEG of a canvas is its width, its height and its samples, and the size of an embedded
  image is read back from its first two bytes. A file, a selected page turned by 90
  degrees, an unselected page, and a two-up layout with borders.\<close>

definition env0 :: env where
  "env0 =
     \<lparr>getViewport = (\<lambda>fileData pageIndex sc. Inr (100.5, 200.75)),
      thumbContext = True,
      renderPage = (\<lambda>fileData pageIndex sc cv. Inr [1, 2, 3]),
      pageContext = True,
      drawImage = (\<lambda>dataUrl rot width height cv. [200, 100, 50, 255, 0, 0, 0, 7]),
      drawDoodle = (\<lambda>doodle rot width height im. data im),
      toDataURL = (\<lambda>im. word_of_nat (im_width im) # word_of_nat (im_height im) # data im),
      embedJpg = (\<lambda>bytes. case bytes of
                     w # h # rest \<Rightarrow> Inr (real (unat w), real (unat h))
                   | _ \<Rightarrow> Inl (EmbedFailed [])),
      save = (\<lambda>evs. [37, 80, 68, 70])\<rparr>"

definition files0 :: "string \<rightharpoonup> byte list" where
  "files0 = [''a'' \<mapsto> [1, 2, 3]]"

definition page_a :: PageItem where
  "page_a =
     \<lparr>fileId = ''a'', originalPageIndex = 0, isSelected = True, rotation = 90,
      filters = neutral, drawingDataUrl = None\<rparr>"

definition page_off :: PageItem where
  "page_off = page_a\<lparr>isSelected := False, rotation := 0\<rparr>"

definition layout2 :: LayoutSettings where
  "layout2 = \<lparr>nUp = 2, showBorders = True\<rparr>"

section \<open>Properties\<close>

subsection \<open>Rounding to binary64\<close>

lemma pow2_powr: "pow2 k = 2 powr (real_of_int k)"
proof (cases "0 \<le> k")
  case True
  then have "2 powr (real_of_int k) = 2 powr (real (nat k))" by simp
  also have "\<dots> = 2 ^ nat k" by (rule powr_realpow) simp
  finally show ?thesis using True by (simp add: pow2_def)
next
  case False
  then have "2 powr (real_of_int k) = 2 powr (- real (nat (- k)))" by simp
  also have "\<dots> = 1 / 2 powr (real (nat (- k)))" by (simp add: powr_minus_divide)
  also have "2 powr (real (nat (- k))) = 2 ^ nat (- k)" by (rule powr_realpow) simp
  finally show ?thesis using False by (simp add: pow2_def)
qed

lemma pow2_pos: "0 < pow2 k"
  by (simp add: pow2_powr)

lemma pow2_mono: "j \<le> k \<Longrightarrow> pow2 j \<le> pow2 k"
  by (simp add: pow2_powr)

lemma pow2_add: "pow2 (j + k) = pow2 j * pow2 k"
  by (simp add: pow2_powr powr_add)

lemma pow2_nat: "pow2 (int n) = 2 ^ n"
  by (simp add: pow2_def)

lemma pow2_unique:
  assumes "pow2 e \<le> a" "a < pow2 (e + 1)" "pow2 e' \<le> a" "a < pow2 (e' + 1)"
  shows "e = e'"
proof (rule ccontr)
  assume "e \<noteq> e'"
  then consider "e + 1 \<le> e'" | "e' + 1 \<le> e" by linarith
  then show False
  proof cases
    case 1
    then have "pow2 (e + 1) \<le> pow2 e'" by (rule pow2_mono)
    then show False using assms by linarith
  next
    case 2
    then have "pow2 (e' + 1) \<le> pow2 e" by (rule pow2_mono)
    then show False using assms by linarith
  qed
qed

lemma floor_bitlen_bounds:
  assumes "1 \<le> a"
  shows "pow2 (bitlen \<lfloor>a\<rfloor> - 1) \<le> a" and "a < pow2 (bitlen \<lfloor>a\<rfloor>)"
proof -
  define m where "m = \<lfloor>a\<rfloor>"
  have m: "0 < m" using assms by (simp add: m_def)
  have b1: "1 \<le> bitlen m" using m bitlen_eq_zero_iff[of m] bitlen_nonneg[of m] by linarith
  from bitlen_bounds[OF m] have lo: "2 ^ nat (bitlen m - 1) \<le> m" and hi: "m < 2 ^ nat (bitlen m)"
    by simp_all
  have "real_of_int ((2::int) ^ nat (bitlen m - 1)) \<le> real_of_int m" using lo by (simp only: of_int_le_iff)
  then have "pow2 (bitlen m - 1) \<le> real_of_int m" using b1 by (simp add: pow2_def)
  also have "real_of_int m \<le> a" by (simp add: m_def)
  finally show "pow2 (bitlen \<lfloor>a\<rfloor> - 1) \<le> a" by (simp add: m_def)
  have "m + 1 \<le> 2 ^ nat (bitlen m)" using hi by simp
  then have "real_of_int (m + 1) \<le> real_of_int (2 ^ nat (bitlen m))" by (simp only: of_int_le_iff)
  then have "real_of_int m + 1 \<le> pow2 (bitlen m)" using b1 by (simp add: pow2_def)
  moreover have "a < real_of_int m + 1" by (simp add: m_def)
  ultimately have "a < pow2 (bitlen m)" by linarith
  then show "a < pow2 (bitlen \<lfloor>a\<rfloor>)" by (simp only: m_def)
qed

lemma pow2_neg: "pow2 (- k) = 1 / pow2 k"
  by (simp add: pow2_powr powr_minus_divide)

lemma exponent_bounds:
  assumes "0 < a"
  shows "pow2 (exponent a) \<le> a \<and> a < pow2 (exponent a + 1)"
proof (cases "1 \<le> a")
  case True
  then show ?thesis using floor_bitlen_bounds[OF True] by (simp add: exponent_def)
next
  case False
  define k where "k = bitlen \<lfloor>1 / a\<rfloor>"
  have inv: "1 \<le> 1 / a" using assms False by simp
  from floor_bitlen_bounds[OF inv]
  have lo: "pow2 (k - 1) \<le> 1 / a" and hi: "1 / a < pow2 k" by (simp_all add: k_def)
  have up: "a \<le> pow2 (1 - k)"
  proof -
    have "pow2 (k - 1) * a \<le> 1" using lo assms by (simp add: pos_le_divide_eq)
    then have "a \<le> 1 / pow2 (k - 1)" using pow2_pos[of "k - 1"] by (simp add: pos_le_divide_eq mult.commute)
    then show ?thesis using pow2_neg[of "k - 1"] by simp
  qed
  have dn: "pow2 (- k) < a"
  proof -
    have "1 < pow2 k * a" using hi assms by (simp add: pos_divide_less_eq)
    then have "1 / pow2 k < a" using pow2_pos[of k] by (simp add: pos_divide_less_eq mult.commute)
    then show ?thesis by (simp add: pow2_neg)
  qed
  show ?thesis
  proof (cases "a < pow2 (1 - k)")
    case True
    then have "exponent a = - k" using False by (simp add: exponent_def k_def Let_def)
    then show ?thesis using dn True by (simp add: add.commute)
  next
    case F2: False
    then have e: "exponent a = 1 - k" using False by (simp add: exponent_def k_def Let_def)
    have eq: "a = pow2 (1 - k)" using up F2 by simp
    have "pow2 (1 - k) < pow2 (1 - k + 1)"
      using pow2_add[of "1 - k" 1] pow2_pos[of "1 - k"] by (simp add: pow2_def)
    then have "pow2 (1 - k) \<le> a" "a < pow2 (1 - k + 1)" using eq by simp_all
    then show ?thesis unfolding e by blast
  qed
qed

lemma exponent_eq:
  "0 < a \<Longrightarrow> pow2 e \<le> a \<Longrightarrow> a < pow2 (e + 1) \<Longrightarrow> exponent a = e"
  using exponent_bounds[of a] pow2_unique[of "exponent a" a e] by simp

lemma round_even_int: "round_even (of_int m) = m"
  by (simp add: round_even_def)

lemma round_even_le: "x \<le> of_int m \<Longrightarrow> round_even x \<le> m"
proof -
  assume x: "x \<le> of_int m"
  have f: "\<lfloor>x\<rfloor> \<le> m" using x by (simp add: floor_le_iff)
  show ?thesis
  proof (cases "\<lfloor>x\<rfloor> = m")
    case True
    then have "x = of_int m" using x by (metis of_int_floor_le order_antisym)
    then show ?thesis by (simp add: round_even_int)
  next
    case False
    then have "\<lfloor>x\<rfloor> + 1 \<le> m" using f by simp
    then show ?thesis by (simp add: round_even_def Let_def)
  qed
qed

lemma round_even_nonneg: "0 \<le> x \<Longrightarrow> 0 \<le> round_even x"
  by (simp add: round_even_def Let_def)

text \<open>Evaluation of a rounding whose exponent is known.\<close>

lemma round64_pos:
  assumes a: "0 < a" and lo: "pow2 e \<le> a" and hi: "a < pow2 (e + 1)"
    and e: "- 1022 \<le> e" "e \<le> 1022"
  shows "round64 a = Fin (of_int (round_even (a / pow2 (e - 52))) * pow2 (e - 52))"
proof -
  have ex: "exponent a = e" using a lo hi by (rule exponent_eq)
  let ?q = "pow2 (e - 52)"
  have q: "0 < ?q" by (rule pow2_pos)
  have p53: "pow2 53 = 2 ^ 53" by (simp add: pow2_def)
  have split: "pow2 (e + 1) = 2 ^ 53 * ?q"
    using pow2_add[of 53 "e - 52"] by (simp add: p53 add.commute)
  have "a / ?q < 2 ^ 53" using hi q by (simp add: pos_divide_less_eq split)
  then have "a / ?q \<le> of_int (2 ^ 53)" by simp
  then have "round_even (a / ?q) \<le> 2 ^ 53" by (rule round_even_le)
  then have "real_of_int (round_even (a / ?q)) \<le> real_of_int (2 ^ 53)" by (simp only: of_int_le_iff)
  then have "of_int (round_even (a / ?q)) * ?q \<le> 2 ^ 53 * ?q"
    using q by (simp add: mult_right_mono)
  also have "\<dots> = pow2 (e + 1)" by (simp only: split)
  also have "\<dots> \<le> pow2 1023" using e by (intro pow2_mono) simp
  also have "\<dots> < pow2 1024" by (simp add: pow2_def)
  finally have r: "\<not> pow2 1024 \<le> of_int (round_even (a / ?q)) * ?q" by simp
  have m: "max e (- 1022) = e" using e by simp
  show ?thesis using a r by (simp add: round64_def ex m Let_def)
qed

lemma round64_neg: "x < 0 \<Longrightarrow> round64 x = js_neg (round64 (- x))"
  by (simp add: round64_def Let_def)

lemma round64_nat:
  assumes "n < 2 ^ 53"
  shows "round64 (real n) = Fin (real n)"
proof (cases "n = 0")
  case True
  then show ?thesis by (simp add: round64_def)
next
  case False
  define a where "a = real n"
  define e where "e = exponent a"
  have a: "0 < a" "1 \<le> a" using False by (simp_all add: a_def)
  from exponent_bounds[OF a(1)] have lo: "pow2 e \<le> a" and hi: "a < pow2 (e + 1)"
    by (simp_all add: e_def)
  have e0: "0 \<le> e"
  proof (rule ccontr)
    assume "\<not> 0 \<le> e"
    then have "pow2 (e + 1) \<le> pow2 0" by (intro pow2_mono) simp
    then show False using hi a(2) by (simp add: pow2_def)
  qed
  have e52: "e \<le> 52"
  proof (rule ccontr)
    assume "\<not> e \<le> 52"
    then have "pow2 53 \<le> pow2 e" by (intro pow2_mono) simp
    then have "2 ^ 53 \<le> a" using lo by (simp add: pow2_def)
    moreover have "a < 2 ^ 53" using assms unfolding a_def
      by (metis of_nat_less_iff of_nat_numeral of_nat_power)
    ultimately show False by simp
  qed
  define k where "k = nat (52 - e)"
  have q: "pow2 (e - 52) = 1 / 2 ^ k"
  proof (cases "e = 52")
    case True
    then show ?thesis by (simp add: pow2_def k_def)
  next
    case False
    then have "\<not> 0 \<le> e - 52" using e52 by simp
    then show ?thesis by (simp add: pow2_def k_def)
  qed
  have "a / pow2 (e - 52) = of_int (int n * 2 ^ k)" by (simp add: q a_def)
  then have re: "round_even (a / pow2 (e - 52)) = int n * 2 ^ k"
    by (simp only: round_even_int)
  have "round64 a = Fin (of_int (round_even (a / pow2 (e - 52))) * pow2 (e - 52))"
    using a(1) lo hi e0 e52 by (intro round64_pos) simp_all
  then have "round64 a = Fin (of_int (int n * 2 ^ k) * pow2 (e - 52))" by (simp only: re)
  then show ?thesis by (simp add: q a_def)
qed

lemma round64_numeral: "numeral k < (2::nat) ^ 53 \<Longrightarrow> round64 (numeral k) = Fin (numeral k)"
  using round64_nat[of "numeral k"] by simp

lemma lit_small:
  "lit 0 = Fin 0" "lit 1 = Fin 1" "lit 100 = Fin 100" "lit 128 = Fin 128" "lit 255 = Fin 255"
  using round64_nat[of 0] round64_nat[of 1] round64_numeral[of "num.Bit0 (num.Bit0 (num.Bit1 (num.Bit0 (num.Bit0 (num.Bit1 num.One)))))"]
  by (simp_all add: lit_def round64_numeral)

lemma round64_zero: "round64 0 = Fin 0"
  by (simp add: round64_def)

lemma round64_one: "round64 1 = Fin 1"
  using round64_nat[of 1] by simp

subsection \<open>Samples and stores\<close>

lemma unat_byte_le: "unat (w::byte) \<le> 255"
  using unsigned_less[of w, where 'a=nat] by simp

lemma round64_byte: "n \<le> 255 \<Longrightarrow> round64 (real n) = Fin (real n)"
  by (rule round64_nat) simp

lemma mult_exact:
  "whiteness fl = Fin 0 \<Longrightarrow> brightnessMult fl = Fin 1"
  "blackness fl = Fin 0 \<Longrightarrow> contrastMult fl = Fin 1"
  "blackness fl = Fin 0 \<Longrightarrow> intercept fl = Fin 0"
  by (simp_all add: brightnessMult_def contrastMult_def intercept_def js_sub_def lit_small
      round64_zero round64_one)

lemma clamp_is_spec: "js_min (lit 255) (js_max (lit 0) c) = spec_clamp c"
  by (cases c) (auto simp add: lit_small min_def max_def)

lemma chan_exact:
  assumes "n \<le> 255"
  shows "spec_clamp (js_add (js_mul (js_mul (Fin (real n)) (Fin 1)) (Fin 1)) (Fin 0)) = Fin (real n)"
proof -
  have "real n \<le> real 255" using assms by (simp only: of_nat_le_iff)
  then have r: "real n \<le> 255" by simp
  show ?thesis using r by (simp add: round64_byte[OF assms])
qed

lemma sub255:
  assumes "n \<le> 255"
  shows "js_sub (lit 255) (Fin (real n)) = Fin (real (255 - n))"
proof -
  have e: "255 - real n = real (255 - n)" using assms by (simp add: of_nat_diff)
  have r: "round64 (real (255 - n)) = Fin (real (255 - n))" by (rule round64_byte) simp
  have "js_sub (lit 255) (Fin (real n)) = round64 (255 - real n)"
    by (simp add: js_sub_def lit_small)
  then show ?thesis by (simp only: e r)
qed

lemma pixel_values_plain:
  assumes "\<not> grayscale fl" "whiteness fl = Fin 0" "blackness fl = Fin 0"
  shows "pixel_values fl r g b =
     (spec_clamp (js_add (js_mul (js_mul (if invert fl then js_sub (lit 255) r else r) (Fin 1)) (Fin 1)) (Fin 0)),
      spec_clamp (js_add (js_mul (js_mul (if invert fl then js_sub (lit 255) g else g) (Fin 1)) (Fin 1)) (Fin 0)),
      spec_clamp (js_add (js_mul (js_mul (if invert fl then js_sub (lit 255) b else b) (Fin 1)) (Fin 1)) (Fin 0)))"
  using assms by (simp add: pixel_values_def mult_exact clamp_is_spec)

lemma store_byte: "n \<le> 255 \<Longrightarrow> ToUint8Clamp (Fin (real n)) = word_of_nat n"
proof -
  assume n: "n \<le> 255"
  have "real n \<le> real 255" using n by (simp only: of_nat_le_iff)
  then have "min (max (real n) 0) 255 = of_int (int n)" by simp
  then have "round_even (min (max (real n) 0) 255) = int n" by (simp only: round_even_int)
  then show ?thesis by simp
qed

lemma sample_nat: "sample w = Fin (real (unat w))"
  by (simp only: sample_def)

lemma store_sample: "ToUint8Clamp (Fin (real (unat w))) = w"
  using store_byte[OF unat_byte_le[of w]] by simp

lemma store_flip: "ToUint8Clamp (Fin (real (255 - unat w))) = 255 - w"
proof -
  have "ToUint8Clamp (Fin (real (255 - unat w))) = word_of_nat (255 - unat w)"
    by (rule store_byte) simp
  also have "\<dots> = 255 - w" using unat_byte_le[of w] by (simp add: of_nat_diff)
  finally show ?thesis .
qed

lemma neutral_chan:
  "spec_clamp (js_add (js_mul (js_mul (sample w) (Fin 1)) (Fin 1)) (Fin 0)) = sample w"
  unfolding sample_nat by (rule chan_exact[OF unat_byte_le])

lemma invert_chan:
  "spec_clamp (js_add (js_mul (js_mul (js_sub (lit 255) (sample w)) (Fin 1)) (Fin 1)) (Fin 0))
     = Fin (real (255 - unat w))"
  unfolding sample_nat sub255[OF unat_byte_le] by (rule chan_exact) simp

lemma store_neutral: "ToUint8Clamp (sample w) = w"
  unfolding sample_nat by (rule store_sample)

lemma neutral_facts:
  "\<not> grayscale neutral" "\<not> invert neutral" "whiteness neutral = Fin 0" "blackness neutral = Fin 0"
  by (simp_all add: neutral_def)

lemma invert_only_facts:
  "\<not> grayscale invert_only" "invert invert_only" "whiteness invert_only = Fin 0"
  "blackness invert_only = Fin 0"
  by (simp_all add: invert_only_def)

lemma filter_loop_neutral: "filter_loop neutral xs = xs"
proof (induction neutral xs rule: filter_loop.induct)
  case (1 r g b a rest)
  then show ?case
    by (simp add: pixel_values_plain[OF neutral_facts(1,3,4)] neutral_facts neutral_chan
        store3_def store_neutral)
next
  case (2 r g b)
  then show ?case
    by (simp add: pixel_values_plain[OF neutral_facts(1,3,4)] neutral_facts neutral_chan
        store3_def store_neutral)
next
  case (3 r g)
  then show ?case
    by (simp add: pixel_values_plain[OF neutral_facts(1,3,4)] neutral_facts neutral_chan
        store3_def store_neutral)
next
  case (4 r)
  then show ?case
    by (simp add: pixel_values_plain[OF neutral_facts(1,3,4)] neutral_facts neutral_chan
        store3_def store_neutral)
next
  case 5
  then show ?case by simp
qed

lemma filter_loop_invert_step:
  "filter_loop invert_only (r # g # b # a # rest) =
     (255 - r) # (255 - g) # (255 - b) # a # filter_loop invert_only rest"
  by (simp add: pixel_values_plain[OF invert_only_facts(1,3,4)] invert_only_facts invert_chan
      store3_def store_flip del: ToUint8Clamp.simps)

lemma filter_loop_invert_tails:
  "filter_loop invert_only [r, g, b] = [255 - r, 255 - g, 255 - b]"
  "filter_loop invert_only [r, g] = [255 - r, 255 - g]"
  "filter_loop invert_only [r] = [255 - r]"
  by (simp_all add: pixel_values_plain[OF invert_only_facts(1,3,4)] invert_only_facts invert_chan
      store3_def store_flip del: ToUint8Clamp.simps)

lemma filter_loop_invert_twice: "filter_loop invert_only (filter_loop invert_only xs) = xs"
proof (induction invert_only xs rule: filter_loop.induct)
  case (1 r g b a rest)
  then show ?case by (simp only: filter_loop_invert_step) simp
next
  case (2 r g b)
  then show ?case by (simp only: filter_loop_invert_tails) simp
next
  case (3 r g)
  then show ?case by (simp only: filter_loop_invert_tails) simp
next
  case (4 r)
  then show ?case by (simp only: filter_loop_invert_tails) simp
next
  case 5
  then show ?case by simp
qed

lemma pixel_values_spec: "pixel_values fl r g b = spec_pixel fl (r, g, b)"
  by (simp add: pixel_values_def spec_pixel_def each_channel_def spec_grayscale_def
      spec_luma_def spec_invert_def spec_brightness_def spec_contrast_def clamp_is_spec
      brightnessMult_def contrastMult_def intercept_def Let_def)

lemma length_store3: "length (store3 p) = 3"
  by (simp add: store3_def split: prod.splits)

lemma length_filter_loop: "length (filter_loop fl xs) = length xs"
  by (induction fl xs rule: filter_loop.induct) (simp_all add: length_store3)

lemma filter_loop_pixel:
  "4 * k + 3 < length xs \<Longrightarrow>
   take 4 (drop (4 * k) (filter_loop fl xs)) =
     store3 (pixel_values fl (sample (xs ! (4 * k))) (sample (xs ! (4 * k + 1)))
               (sample (xs ! (4 * k + 2)))) @ [xs ! (4 * k + 3)]"
proof (induction fl xs arbitrary: k rule: filter_loop.induct)
  case (1 fl r g b a rest)
  show ?case
  proof (cases k)
    case 0
    then show ?thesis by (simp add: length_store3)
  next
    case (Suc j)
    have idx: "4 * k = Suc (Suc (Suc (Suc (4 * j))))" using Suc by simp
    have "4 * j + 3 < length rest" using "1.prems" Suc by simp
    from "1.IH"[OF this] show ?thesis
      by (simp add: idx length_store3 add.commute)
  qed
qed simp_all

lemma filter_loop_nth:
  assumes "4 * k + 3 < length xs" and "j < 4"
  shows "filter_loop fl xs ! (4 * k + j) =
           (store3 (pixel_values fl (sample (xs ! (4 * k))) (sample (xs ! (4 * k + 1)))
                      (sample (xs ! (4 * k + 2)))) @ [xs ! (4 * k + 3)]) ! j"
proof -
  have "4 * k + j < length (filter_loop fl xs)"
    using assms by (simp add: length_filter_loop)
  then have "filter_loop fl xs ! (4 * k + j) = take 4 (drop (4 * k) (filter_loop fl xs)) ! j"
    using assms(2) by simp
  then show ?thesis using filter_loop_pixel[OF assms(1), of fl] by simp
qed

lemma spec_clamp_range: "spec_clamp c = NaN \<or> (\<exists>x. spec_clamp c = Fin x \<and> 0 \<le> x \<and> x \<le> 255)"
  by (cases c) auto

subsection \<open>Three pixels whose exact value sits next to a tie\<close>

text \<open>Each step of the loop body is evaluated with its rounding: grayscale on
  (0, 80, 110), blackness 10 on (13, 23, 33), and grayscale, invert, whiteness 12 and
  blackness 50 on (0, 80, 235).\<close>

lemma round64_at:
  assumes "0 < a" "- 1022 \<le> e" "e \<le> 1022" "pow2 e \<le> a" "a < pow2 (e + 1)"
    and "round_even (a / pow2 (e - 52)) = m" and "of_int m * pow2 (e - 52) = r"
  shows "round64 a = Fin r"
  using round64_pos[of a e] assms by simp

lemma round64_at_neg:
  assumes "a < 0" "- 1022 \<le> e" "e \<le> 1022" "pow2 e \<le> - a" "- a < pow2 (e + 1)"
    and "round_even (- a / pow2 (e - 52)) = m" and "- (of_int m * pow2 (e - 52)) = r"
  shows "round64 a = Fin r"
  using round64_pos[of "- a" e] assms by (simp add: round64_neg)

lemma gray_only_fields:
  "grayscale gray_only = True" "invert gray_only = False"
  "whiteness gray_only = Fin 0" "blackness gray_only = Fin 0"
  by (simp_all add: gray_only_def)

lemma contrast10_fields:
  "grayscale contrast10 = False" "invert contrast10 = False"
  "whiteness contrast10 = Fin 0" "blackness contrast10 = Fin 10"
  by (simp_all add: contrast10_def)

lemma ink_saver_fields:
  "grayscale ink_saver = True" "invert ink_saver = True"
  "whiteness ink_saver = Fin 12" "blackness ink_saver = Fin 50"
  by (simp_all add: ink_saver_def)

lemma gray_tie_1: "sample 0 = Fin 0"
  by (simp add: sample_def)

lemma gray_tie_2: "sample 80 = Fin 80"
  by (simp add: sample_def)

lemma gray_tie_3: "sample 110 = Fin 110"
  by (simp add: sample_def)

lemma gray_tie_4: "lit 0.299 = Fin (5386305154335113 / 18014398509481984)"
  unfolding lit_def
  by (rule round64_at[where e = "- 2" and m = "5386305154335113"])
     (simp_all add: pow2_def round_even_def)

lemma gray_tie_5: "lit 0.587 = Fin (2643612981266481 / 4503599627370496)"
  unfolding lit_def
  by (rule round64_at[where e = "- 1" and m = "5287225962532962"])
     (simp_all add: pow2_def round_even_def)

lemma gray_tie_6: "lit 0.114 = Fin (8214565720323785 / 72057594037927936)"
  unfolding lit_def
  by (rule round64_at[where e = "- 4" and m = "8214565720323785"])
     (simp_all add: pow2_def round_even_def)

lemma gray_tie_7: "js_mul (Fin (5386305154335113 / 18014398509481984)) (Fin 0) = Fin 0"
  unfolding js_mul.simps by (simp add: round64_zero)

lemma gray_tie_8: "js_mul (Fin (2643612981266481 / 4503599627370496)) (Fin 80) = Fin (3304516226583101 / 70368744177664)"
  unfolding js_mul.simps
  by (rule round64_at[where e = "5" and m = "6609032453166202"])
     (simp_all add: pow2_def round_even_def)

lemma gray_tie_9: "js_add (Fin 0) (Fin (3304516226583101 / 70368744177664)) = Fin (3304516226583101 / 70368744177664)"
  unfolding js_add.simps
  by (rule round64_at[where e = "5" and m = "6609032453166202"])
     (simp_all add: pow2_def round_even_def)

lemma gray_tie_10: "js_mul (Fin (8214565720323785 / 72057594037927936)) (Fin 110) = Fin (7059392415903253 / 562949953421312)"
  unfolding js_mul.simps
  by (rule round64_at[where e = "3" and m = "7059392415903253"])
     (simp_all add: pow2_def round_even_def)

lemma gray_tie_11: "js_add (Fin (3304516226583101 / 70368744177664)) (Fin (7059392415903253 / 562949953421312)) = Fin (8373880557142015 / 140737488355328)"
  unfolding js_add.simps
  by (rule round64_at[where e = "5" and m = "8373880557142015"])
     (simp_all add: pow2_def round_even_def)

lemma gray_tie_12: "js_div (Fin 0) (Fin 100) = Fin 0"
  by (simp add: round64_zero)

lemma gray_tie_13: "js_add (Fin 1) (Fin 0) = Fin 1"
  unfolding js_add.simps
  by (rule round64_at[where e = "0" and m = "4503599627370496"])
     (simp_all add: pow2_def round_even_def)

lemma gray_tie_14: "js_mul (Fin (8373880557142015 / 140737488355328)) (Fin 1) = Fin (8373880557142015 / 140737488355328)"
  unfolding js_mul.simps
  by (rule round64_at[where e = "5" and m = "8373880557142015"])
     (simp_all add: pow2_def round_even_def)

lemma gray_tie_15: "js_sub (Fin 1) (Fin 1) = Fin 0"
  unfolding js_sub_def js_neg.simps js_add.simps by (simp add: round64_zero)

lemma gray_tie_16: "js_mul (Fin 128) (Fin 0) = Fin 0"
  unfolding js_mul.simps by (simp add: round64_zero)

lemma gray_tie_17: "js_add (Fin (8373880557142015 / 140737488355328)) (Fin 0) = Fin (8373880557142015 / 140737488355328)"
  unfolding js_add.simps
  by (rule round64_at[where e = "5" and m = "8373880557142015"])
     (simp_all add: pow2_def round_even_def)

lemma gray_tie_18: "spec_clamp (Fin (8373880557142015 / 140737488355328)) = Fin (8373880557142015 / 140737488355328)"
  by simp

lemma gray_tie_store1: "ToUint8Clamp (Fin (8373880557142015 / 140737488355328)) = 59"
  by (simp add: round_even_def)

lemma gray_tie_pixel: "spec_pixel gray_only (sample 0, sample 80, sample 110) = (Fin (8373880557142015 / 140737488355328), Fin (8373880557142015 / 140737488355328), Fin (8373880557142015 / 140737488355328))"
  unfolding spec_pixel_def spec_grayscale_def spec_luma_def spec_invert_def spec_brightness_def
    spec_contrast_def each_channel_def gray_only_fields if_True if_False prod.case lit_small
    gray_tie_1 gray_tie_2 gray_tie_3 gray_tie_4 gray_tie_5 gray_tie_6 gray_tie_7 gray_tie_8 gray_tie_9 gray_tie_10 gray_tie_11 gray_tie_12 gray_tie_13 gray_tie_14 gray_tie_15 gray_tie_16 gray_tie_17 gray_tie_18
  by (rule refl)

lemma contrast_tie_1: "sample 13 = Fin 13"
  by (simp add: sample_def)

lemma contrast_tie_2: "sample 23 = Fin 23"
  by (simp add: sample_def)

lemma contrast_tie_3: "sample 33 = Fin 33"
  by (simp add: sample_def)

lemma contrast_tie_4: "js_div (Fin 0) (Fin 100) = Fin 0"
  by (simp add: round64_zero)

lemma contrast_tie_5: "js_add (Fin 1) (Fin 0) = Fin 1"
  unfolding js_add.simps
  by (rule round64_at[where e = "0" and m = "4503599627370496"])
     (simp_all add: pow2_def round_even_def)

lemma contrast_tie_6: "js_mul (Fin 13) (Fin 1) = Fin 13"
  unfolding js_mul.simps
  by (rule round64_at[where e = "3" and m = "7318349394477056"])
     (simp_all add: pow2_def round_even_def)

lemma contrast_tie_7: "js_mul (Fin 23) (Fin 1) = Fin 23"
  unfolding js_mul.simps
  by (rule round64_at[where e = "4" and m = "6473924464345088"])
     (simp_all add: pow2_def round_even_def)

lemma contrast_tie_8: "js_mul (Fin 33) (Fin 1) = Fin 33"
  unfolding js_mul.simps
  by (rule round64_at[where e = "5" and m = "4644337115725824"])
     (simp_all add: pow2_def round_even_def)

lemma contrast_tie_9: "js_div (Fin 10) (Fin 100) = Fin (3602879701896397 / 36028797018963968)"
  proof -
  have "round64 (10 / 100) = Fin (3602879701896397 / 36028797018963968)"
    by (rule round64_at[where e = "- 4" and m = "7205759403792794"])
       (simp_all add: pow2_def round_even_def)
  then show ?thesis by simp
qed

lemma contrast_tie_10: "js_add (Fin 1) (Fin (3602879701896397 / 36028797018963968)) = Fin (2476979795053773 / 2251799813685248)"
  unfolding js_add.simps
  by (rule round64_at[where e = "0" and m = "4953959590107546"])
     (simp_all add: pow2_def round_even_def)

lemma contrast_tie_11: "js_sub (Fin 1) (Fin (2476979795053773 / 2251799813685248)) = Fin (- (225179981368525 / 2251799813685248))"
  unfolding js_sub_def js_neg.simps js_add.simps
  by (rule round64_at_neg[where e = "- 4" and m = "7205759403792800"])
     (simp_all add: pow2_def round_even_def)

lemma contrast_tie_12: "js_mul (Fin 128) (Fin (- (225179981368525 / 2251799813685248))) = Fin (- (225179981368525 / 17592186044416))"
  unfolding js_mul.simps
  by (rule round64_at_neg[where e = "3" and m = "7205759403792800"])
     (simp_all add: pow2_def round_even_def)

lemma contrast_tie_13: "js_mul (Fin 13) (Fin (2476979795053773 / 2251799813685248)) = Fin (4025092166962381 / 281474976710656)"
  unfolding js_mul.simps
  by (rule round64_at[where e = "3" and m = "8050184333924762"])
     (simp_all add: pow2_def round_even_def)

lemma contrast_tie_14: "js_add (Fin (4025092166962381 / 281474976710656)) (Fin (- (225179981368525 / 17592186044416))) = Fin (422212465065981 / 281474976710656)"
  unfolding js_add.simps
  by (rule round64_at[where e = "0" and m = "6755399441055696"])
     (simp_all add: pow2_def round_even_def)

lemma contrast_tie_15: "js_mul (Fin 23) (Fin (2476979795053773 / 2251799813685248)) = Fin (7121316910779597 / 281474976710656)"
  unfolding js_mul.simps
  by (rule round64_at[where e = "4" and m = "7121316910779597"])
     (simp_all add: pow2_def round_even_def)

lemma contrast_tie_16: "js_add (Fin (7121316910779597 / 281474976710656)) (Fin (- (225179981368525 / 17592186044416))) = Fin (3518437208883197 / 281474976710656)"
  unfolding js_add.simps
  by (rule round64_at[where e = "3" and m = "7036874417766394"])
     (simp_all add: pow2_def round_even_def)

lemma contrast_tie_17: "js_mul (Fin 33) (Fin (2476979795053773 / 2251799813685248)) = Fin (5108770827298407 / 140737488355328)"
  unfolding js_mul.simps
  by (rule round64_at[where e = "5" and m = "5108770827298407"])
     (simp_all add: pow2_def round_even_def)

lemma contrast_tie_18: "js_add (Fin (5108770827298407 / 140737488355328)) (Fin (- (225179981368525 / 17592186044416))) = Fin (3307330976350207 / 140737488355328)"
  unfolding js_add.simps
  by (rule round64_at[where e = "4" and m = "6614661952700414"])
     (simp_all add: pow2_def round_even_def)

lemma contrast_tie_19: "spec_clamp (Fin (422212465065981 / 281474976710656)) = Fin (422212465065981 / 281474976710656)"
  by simp

lemma contrast_tie_20: "spec_clamp (Fin (3518437208883197 / 281474976710656)) = Fin (3518437208883197 / 281474976710656)"
  by simp

lemma contrast_tie_21: "spec_clamp (Fin (3307330976350207 / 140737488355328)) = Fin (3307330976350207 / 140737488355328)"
  by simp

lemma contrast_tie_store1: "ToUint8Clamp (Fin (422212465065981 / 281474976710656)) = 1"
  by (simp add: round_even_def)

lemma contrast_tie_store2: "ToUint8Clamp (Fin (3518437208883197 / 281474976710656)) = 12"
  by (simp add: round_even_def)

lemma contrast_tie_store3: "ToUint8Clamp (Fin (3307330976350207 / 140737488355328)) = 23"
  by (simp add: round_even_def)

lemma contrast_tie_pixel: "spec_pixel contrast10 (sample 13, sample 23, sample 33) = (Fin (422212465065981 / 281474976710656), Fin (3518437208883197 / 281474976710656), Fin (3307330976350207 / 140737488355328))"
  unfolding spec_pixel_def spec_grayscale_def spec_luma_def spec_invert_def spec_brightness_def
    spec_contrast_def each_channel_def contrast10_fields if_True if_False prod.case lit_small
    contrast_tie_1 contrast_tie_2 contrast_tie_3 contrast_tie_4 contrast_tie_5 contrast_tie_6 contrast_tie_7 contrast_tie_8 contrast_tie_9 contrast_tie_10 contrast_tie_11 contrast_tie_12 contrast_tie_13 contrast_tie_14 contrast_tie_15 contrast_tie_16 contrast_tie_17 contrast_tie_18 contrast_tie_19 contrast_tie_20 contrast_tie_21
  by (rule refl)

lemma ink_tie_1: "sample 0 = Fin 0"
  by (simp add: sample_def)

lemma ink_tie_2: "sample 80 = Fin 80"
  by (simp add: sample_def)

lemma ink_tie_3: "sample 235 = Fin 235"
  by (simp add: sample_def)

lemma ink_tie_4: "lit 0.299 = Fin (5386305154335113 / 18014398509481984)"
  unfolding lit_def
  by (rule round64_at[where e = "- 2" and m = "5386305154335113"])
     (simp_all add: pow2_def round_even_def)

lemma ink_tie_5: "lit 0.587 = Fin (2643612981266481 / 4503599627370496)"
  unfolding lit_def
  by (rule round64_at[where e = "- 1" and m = "5287225962532962"])
     (simp_all add: pow2_def round_even_def)

lemma ink_tie_6: "lit 0.114 = Fin (8214565720323785 / 72057594037927936)"
  unfolding lit_def
  by (rule round64_at[where e = "- 4" and m = "8214565720323785"])
     (simp_all add: pow2_def round_even_def)

lemma ink_tie_7: "js_mul (Fin (5386305154335113 / 18014398509481984)) (Fin 0) = Fin 0"
  unfolding js_mul.simps by (simp add: round64_zero)

lemma ink_tie_8: "js_mul (Fin (2643612981266481 / 4503599627370496)) (Fin 80) = Fin (3304516226583101 / 70368744177664)"
  unfolding js_mul.simps
  by (rule round64_at[where e = "5" and m = "6609032453166202"])
     (simp_all add: pow2_def round_even_def)

lemma ink_tie_9: "js_add (Fin 0) (Fin (3304516226583101 / 70368744177664)) = Fin (3304516226583101 / 70368744177664)"
  unfolding js_add.simps
  by (rule round64_at[where e = "5" and m = "6609032453166202"])
     (simp_all add: pow2_def round_even_def)

lemma ink_tie_10: "js_mul (Fin (8214565720323785 / 72057594037927936)) (Fin 235) = Fin (7540714626078475 / 281474976710656)"
  unfolding js_mul.simps
  by (rule round64_at[where e = "4" and m = "7540714626078475"])
     (simp_all add: pow2_def round_even_def)

lemma ink_tie_11: "js_add (Fin (3304516226583101 / 70368744177664)) (Fin (7540714626078475 / 281474976710656)) = Fin (295 / 4)"
  unfolding js_add.simps
  by (rule round64_at[where e = "6" and m = "5189694883102720"])
     (simp_all add: pow2_def round_even_def)

lemma ink_tie_12: "js_sub (Fin 255) (Fin (295 / 4)) = Fin (725 / 4)"
  unfolding js_sub_def js_neg.simps js_add.simps
  by (rule round64_at[where e = "7" and m = "6377167441100800"])
     (simp_all add: pow2_def round_even_def)

lemma ink_tie_13: "js_div (Fin 12) (Fin 100) = Fin (1080863910568919 / 9007199254740992)"
  proof -
  have "round64 (12 / 100) = Fin (1080863910568919 / 9007199254740992)"
    by (rule round64_at[where e = "- 4" and m = "8646911284551352"])
       (simp_all add: pow2_def round_even_def)
  then show ?thesis by simp
qed

lemma ink_tie_14: "js_add (Fin 1) (Fin (1080863910568919 / 9007199254740992)) = Fin (1261007895663739 / 1125899906842624)"
  unfolding js_add.simps
  by (rule round64_at[where e = "0" and m = "5044031582654956"])
     (simp_all add: pow2_def round_even_def)

lemma ink_tie_15: "js_mul (Fin (725 / 4)) (Fin (1261007895663739 / 1125899906842624)) = Fin (7142427534032897 / 35184372088832)"
  unfolding js_mul.simps
  by (rule round64_at[where e = "7" and m = "7142427534032897"])
     (simp_all add: pow2_def round_even_def)

lemma ink_tie_16: "js_div (Fin 50) (Fin 100) = Fin (1 / 2)"
  proof -
  have "round64 (50 / 100) = Fin (1 / 2)"
    by (rule round64_at[where e = "- 1" and m = "4503599627370496"])
       (simp_all add: pow2_def round_even_def)
  then show ?thesis by simp
qed

lemma ink_tie_17: "js_add (Fin 1) (Fin (1 / 2)) = Fin (3 / 2)"
  unfolding js_add.simps
  by (rule round64_at[where e = "0" and m = "6755399441055744"])
     (simp_all add: pow2_def round_even_def)

lemma ink_tie_18: "js_sub (Fin 1) (Fin (3 / 2)) = Fin (- (1 / 2))"
  unfolding js_sub_def js_neg.simps js_add.simps
  by (rule round64_at_neg[where e = "- 1" and m = "4503599627370496"])
     (simp_all add: pow2_def round_even_def)

lemma ink_tie_19: "js_mul (Fin 128) (Fin (- (1 / 2))) = Fin (- 64)"
  unfolding js_mul.simps
  by (rule round64_at_neg[where e = "6" and m = "4503599627370496"])
     (simp_all add: pow2_def round_even_def)

lemma ink_tie_20: "js_mul (Fin (7142427534032897 / 35184372088832)) (Fin (3 / 2)) = Fin (5356820650524673 / 17592186044416)"
  unfolding js_mul.simps
  by (rule round64_at[where e = "8" and m = "5356820650524673"])
     (simp_all add: pow2_def round_even_def)

lemma ink_tie_21: "js_add (Fin (5356820650524673 / 17592186044416)) (Fin (- 64)) = Fin (4230920743682049 / 17592186044416)"
  unfolding js_add.simps
  by (rule round64_at[where e = "7" and m = "8461841487364098"])
     (simp_all add: pow2_def round_even_def)

lemma ink_tie_22: "spec_clamp (Fin (4230920743682049 / 17592186044416)) = Fin (4230920743682049 / 17592186044416)"
  by simp

lemma ink_tie_store1: "ToUint8Clamp (Fin (4230920743682049 / 17592186044416)) = 241"
  by (simp add: round_even_def)

lemma ink_tie_pixel: "spec_pixel ink_saver (sample 0, sample 80, sample 235) = (Fin (4230920743682049 / 17592186044416), Fin (4230920743682049 / 17592186044416), Fin (4230920743682049 / 17592186044416))"
  unfolding spec_pixel_def spec_grayscale_def spec_luma_def spec_invert_def spec_brightness_def
    spec_contrast_def each_channel_def ink_saver_fields if_True if_False prod.case lit_small
    ink_tie_1 ink_tie_2 ink_tie_3 ink_tie_4 ink_tie_5 ink_tie_6 ink_tie_7 ink_tie_8 ink_tie_9 ink_tie_10 ink_tie_11 ink_tie_12 ink_tie_13 ink_tie_14 ink_tie_15 ink_tie_16 ink_tie_17 ink_tie_18 ink_tie_19 ink_tie_20 ink_tie_21 ink_tie_22
  by (rule refl)

subsection \<open>The pixel filter\<close>

text \<open>
  C4. For every buffer and every filter configuration, the filter leaves the dimensions
  and the length of the buffer as they are, and for every whole pixel \<open>k\<close> the three colour
  samples written are the numbers the five steps of the specification give, computed in
  binary64 as the program does (luma when grayscale, then \<open>255 - c\<close> when invert, then the
  brightness factor, then the contrast about 128, then the clamp to 0..255), each stored
  into the byte buffer by \<open>ToUint8Clamp\<close>; the fourth sample, alpha, is the one that was
  there.
\<close>

theorem filter_transform_steps:
  "im_width (applyFiltersToContext fl img) = im_width img \<and>
   im_height (applyFiltersToContext fl img) = im_height img \<and>
   length (data (applyFiltersToContext fl img)) = length (data img) \<and>
   (\<forall>k. 4 * k + 3 < length (data img) \<longrightarrow>
      (case spec_pixel fl (sample (data img ! (4 * k)), sample (data img ! (4 * k + 1)),
                           sample (data img ! (4 * k + 2)))
       of (r', g', b') \<Rightarrow>
         data (applyFiltersToContext fl img) ! (4 * k) = ToUint8Clamp r' \<and>
         data (applyFiltersToContext fl img) ! (4 * k + 1) = ToUint8Clamp g' \<and>
         data (applyFiltersToContext fl img) ! (4 * k + 2) = ToUint8Clamp b' \<and>
         data (applyFiltersToContext fl img) ! (4 * k + 3) = data img ! (4 * k + 3)))"
proof -
  have "\<forall>k. 4 * k + 3 < length (data img) \<longrightarrow>
      (case spec_pixel fl (sample (data img ! (4 * k)), sample (data img ! (4 * k + 1)),
                           sample (data img ! (4 * k + 2)))
       of (r', g', b') \<Rightarrow>
         filter_loop fl (data img) ! (4 * k) = ToUint8Clamp r' \<and>
         filter_loop fl (data img) ! (4 * k + 1) = ToUint8Clamp g' \<and>
         filter_loop fl (data img) ! (4 * k + 2) = ToUint8Clamp b' \<and>
         filter_loop fl (data img) ! (4 * k + 3) = data img ! (4 * k + 3))"
  proof (intro allI impI)
    fix k assume k: "4 * k + 3 < length (data img)"
    obtain r' g' b' where p: "spec_pixel fl (sample (data img ! (4 * k)),
        sample (data img ! (4 * k + 1)), sample (data img ! (4 * k + 2))) = (r', g', b')"
      by (cases "spec_pixel fl (sample (data img ! (4 * k)),
        sample (data img ! (4 * k + 1)), sample (data img ! (4 * k + 2)))") auto
    define r g b where "r = sample (data img ! (4 * k))"
      and "g = sample (data img ! (4 * k + 1))" and "b = sample (data img ! (4 * k + 2))"
    note n = filter_loop_nth[OF k, of _ fl, folded r_def g_def b_def]
    have q: "pixel_values fl r g b = (r', g', b')"
      using p by (simp only: pixel_values_spec r_def g_def b_def)
    have "filter_loop fl (data img) ! (4 * k) = ToUint8Clamp r'"
         "filter_loop fl (data img) ! (4 * k + 1) = ToUint8Clamp g'"
         "filter_loop fl (data img) ! (4 * k + 2) = ToUint8Clamp b'"
         "filter_loop fl (data img) ! (4 * k + 3) = data img ! (4 * k + 3)"
      using n[of 0] n[of 1] n[of 2] n[of 3]
      by (simp_all add: q store3_def)
    then show "case spec_pixel fl (sample (data img ! (4 * k)),
        sample (data img ! (4 * k + 1)), sample (data img ! (4 * k + 2)))
       of (r', g', b') \<Rightarrow>
         filter_loop fl (data img) ! (4 * k) = ToUint8Clamp r' \<and>
         filter_loop fl (data img) ! (4 * k + 1) = ToUint8Clamp g' \<and>
         filter_loop fl (data img) ! (4 * k + 2) = ToUint8Clamp b' \<and>
         filter_loop fl (data img) ! (4 * k + 3) = data img ! (4 * k + 3)"
      unfolding p by simp
  qed
  then show ?thesis
    by (simp add: applyFiltersToContext_def length_filter_loop)
qed

text \<open>The three pixels of \<open>tie_pixels\<close>, each under its configuration: 59.49999999999999
  is stored as 59, (1.4999999999999893, 12.49999999999999, 23.499999999999993) as
  (1, 12, 23), and 240.50000000000006 as 241; the alpha samples 255, 9 and 0 stay.\<close>

theorem filter_transform_steps_witness:
  "4 * 0 + 3 < length (data tie_pixels) \<and> 4 * 1 + 3 < length (data tie_pixels) \<and>
   4 * 2 + 3 < length (data tie_pixels) \<and>
   data (applyFiltersToContext gray_only tie_pixels) ! 0 = 59 \<and>
   data (applyFiltersToContext gray_only tie_pixels) ! 1 = 59 \<and>
   data (applyFiltersToContext gray_only tie_pixels) ! 2 = 59 \<and>
   data (applyFiltersToContext gray_only tie_pixels) ! 3 = 255 \<and>
   data (applyFiltersToContext contrast10 tie_pixels) ! 4 = 1 \<and>
   data (applyFiltersToContext contrast10 tie_pixels) ! 5 = 12 \<and>
   data (applyFiltersToContext contrast10 tie_pixels) ! 6 = 23 \<and>
   data (applyFiltersToContext contrast10 tie_pixels) ! 7 = 9 \<and>
   data (applyFiltersToContext ink_saver tie_pixels) ! 8 = 241 \<and>
   data (applyFiltersToContext ink_saver tie_pixels) ! 9 = 241 \<and>
   data (applyFiltersToContext ink_saver tie_pixels) ! 10 = 241 \<and>
   data (applyFiltersToContext ink_saver tie_pixels) ! 11 = 0"
proof -
  have a: "4 * 0 + 3 < length (data tie_pixels)" "4 * 1 + 3 < length (data tie_pixels)"
    "4 * 2 + 3 < length (data tie_pixels)"
    by (simp_all add: tie_pixels_def)
  have d: "data tie_pixels ! (4 * 0) = 0" "data tie_pixels ! (4 * 0 + 1) = 80"
    "data tie_pixels ! (4 * 0 + 2) = 110" "data tie_pixels ! (4 * 0 + 3) = 255"
    "data tie_pixels ! (4 * 1) = 13" "data tie_pixels ! (4 * 1 + 1) = 23"
    "data tie_pixels ! (4 * 1 + 2) = 33" "data tie_pixels ! (4 * 1 + 3) = 9"
    "data tie_pixels ! (4 * 2) = 0" "data tie_pixels ! (4 * 2 + 1) = 80"
    "data tie_pixels ! (4 * 2 + 2) = 235" "data tie_pixels ! (4 * 2 + 3) = 0"
    by (simp_all add: tie_pixels_def)
  note gray = filter_transform_steps[of gray_only tie_pixels,
      THEN conjunct2, THEN conjunct2, THEN conjunct2, rule_format, OF a(1),
      unfolded d gray_tie_pixel prod.case gray_tie_store1]
  note contrast = filter_transform_steps[of contrast10 tie_pixels,
      THEN conjunct2, THEN conjunct2, THEN conjunct2, rule_format, OF a(2),
      unfolded d contrast_tie_pixel prod.case contrast_tie_store1
      contrast_tie_store2 contrast_tie_store3]
  note ink = filter_transform_steps[of ink_saver tie_pixels,
      THEN conjunct2, THEN conjunct2, THEN conjunct2, rule_format, OF a(3),
      unfolded d ink_tie_pixel prod.case ink_tie_store1]
  show ?thesis
    using a gray contrast ink by (simp add: numeral_2_eq_2)
qed

text \<open>
  C7. With the neutral configuration (no invert, no grayscale, whiteness 0, blackness 0)
  the filter returns the buffer it was given, sample for sample; applying it again changes
  nothing either.
\<close>

theorem neutral_identity:
  "applyFiltersToContext neutral img = img \<and>
   applyFiltersToContext neutral (applyFiltersToContext neutral img) = img"
  by (simp add: applyFiltersToContext_def filter_loop_neutral)

text \<open>
  C8. With invert alone (no grayscale, whiteness 0, blackness 0), filtering a buffer twice
  gives the buffer back, sample for sample.
\<close>

theorem invert_round_trip:
  "applyFiltersToContext invert_only (applyFiltersToContext invert_only img) = img"
  by (simp add: applyFiltersToContext_def filter_loop_invert_twice)

lemma in_range_clamp: "clamped_or_nan (spec_clamp c)"
  by (cases c) auto

lemma unat_store: "unat (ToUint8Clamp c) \<le> 255"
  by (rule unat_byte_le)

text \<open>
  C9. Whatever the numbers read and whatever the configuration (any whiteness and blackness,
  the infinities and NaN among them), each of the three numbers the loop hands to the store
  for a pixel lies between 0 and 255 or is NaN, and the byte that the store leaves in the
  buffer lies between 0 and 255 (a NaN is stored as 0).
\<close>

theorem output_channels_in_range:
  "(case pixel_values fl r g b of (r', g', b') \<Rightarrow>
      clamped_or_nan r' \<and> clamped_or_nan g' \<and> clamped_or_nan b' \<and>
      unat (ToUint8Clamp r') \<le> 255 \<and> unat (ToUint8Clamp g') \<le> 255 \<and>
      unat (ToUint8Clamp b') \<le> 255)"
  by (simp add: pixel_values_spec spec_pixel_def each_channel_def in_range_clamp unat_store
      split: prod.splits del: ToUint8Clamp.simps)

subsection \<open>Packing pages onto sheets\<close>

lemma slice_nat:
  "i < length xs \<Longrightarrow> 0 < N \<Longrightarrow> slice xs (int i) (int i + int N) = take N (drop i xs)"
  by (auto simp add: slice_def Let_def min_def nat_diff_distrib' nat_add_distrib)

lemma count_step:
  "0 < N \<Longrightarrow> 0 < (L::nat) \<Longrightarrow> (L + N - 1) div N = Suc ((L - N + N - 1) div N)"
proof (cases "N \<le> L")
  case True
  assume "0 < N" "0 < L"
  then have "L + N - 1 = (L - N + N - 1) + N" using True by simp
  then have "(L + N - 1) div N = (L - N + N - 1) div N + 1"
    using \<open>0 < N\<close> by (simp only: div_add_self2)
  then show ?thesis by simp
next
  case False
  assume "0 < N" "0 < L"
  then have a: "L - N + N - 1 = N - 1" using False by simp
  have b: "(L + N - 1) div N = 1"
  proof -
    have "N \<le> L + N - 1" "L + N - 1 < 2 * N" using False \<open>0 < L\<close> by simp_all
    then show ?thesis by (simp add: div_nat_eqI)
  qed
  have c: "(N - 1) div N = 0" using \<open>0 < N\<close> by simp
  show ?thesis unfolding a b c by simp
qed

lemma map_upt_Suc0: "map f [0..<Suc c] = f 0 # map (\<lambda>j. f (Suc j)) [0..<c]"
  by (simp only: upt_conv_Cons[of 0 "Suc c"] map_Suc_upt[symmetric] list.map map_map comp_def)

lemma chunk_loop_from:
  assumes N: "0 < N"
  shows "chunk_loop xs (int N) (int i) acc =
           Some (acc @ map (\<lambda>j. take N (drop (i + j * N) xs)) [0..<(length xs - i + N - 1) div N])"
proof (induction "length xs - i" arbitrary: i acc rule: less_induct)
  case less
  show ?case
  proof (cases "i < length xs")
    case True
    have step: "chunk_loop xs (int N) (int i) acc =
                  chunk_loop xs (int N) (int (i + N)) (acc @ [take N (drop i xs)])"
      by (subst chunk_loop.simps) (simp add: True slice_nat[OF True N])
    have "length xs - (i + N) < length xs - i" using True N by simp
    from less[OF this]
    have ih: "chunk_loop xs (int N) (int (i + N)) (acc @ [take N (drop i xs)]) =
                Some ((acc @ [take N (drop i xs)]) @
                  map (\<lambda>j. take N (drop (i + N + j * N) xs))
                    [0..<(length xs - (i + N) + N - 1) div N])" .
    have cnt: "(length xs - i + N - 1) div N = Suc ((length xs - (i + N) + N - 1) div N)"
      using count_step[OF N, of "length xs - i"] True by (simp add: diff_diff_eq)
    show ?thesis
      by (simp only: step ih cnt map_upt_Suc0) (simp add: ac_simps)
  next
    case False
    have "chunk_loop xs (int N) (int i) acc = Some acc"
      by (subst chunk_loop.simps) (simp add: False)
    moreover have "(length xs - i + N - 1) div N = 0" using False N by simp
    ultimately show ?thesis by simp
  qed
qed

lemma chunk_loop_closed:
  "0 < N \<Longrightarrow> chunk_loop xs (int N) 0 [] =
     Some (map (\<lambda>j. take N (drop (j * N) xs)) [0..<(length xs + N - 1) div N])"
  using chunk_loop_from[of N xs 0 "[]"] by simp

lemma concat_chunks_take:
  "concat (map (\<lambda>j. take N (drop (j * N) xs)) [0..<c]) = take (c * N) xs"
proof (induction c)
  case 0
  then show ?case by simp
next
  case (Suc c)
  have "take (Suc c * N) xs = take (c * N + N) xs" by (simp add: add.commute)
  also have "\<dots> = take (c * N) xs @ take N (drop (c * N) xs)" by (rule take_add)
  finally show ?case using Suc by simp
qed

lemma count_covers: "0 < N \<Longrightarrow> (k::nat) \<le> ((k + N - 1) div N) * N"
proof -
  assume N: "0 < N"
  have "k + N - 1 = ((k + N - 1) div N) * N + (k + N - 1) mod N" by simp
  moreover have "(k + N - 1) mod N < N" using N by simp
  ultimately show ?thesis by linarith
qed

lemma count_before_last: "0 < N \<Longrightarrow> Suc j < (k + N - 1) div N \<Longrightarrow> Suc j * N \<le> (k::nat)"
proof -
  assume N: "0 < N" and j: "Suc j < (k + N - 1) div N"
  have "Suc (Suc j) \<le> (k + N - 1) div N" using j by simp
  then have "Suc (Suc j) * N \<le> ((k + N - 1) div N) * N" by (rule mult_le_mono1)
  also have "\<dots> \<le> k + N - 1" by simp
  finally have "Suc j * N + N \<le> k + N - 1" by simp
  then show ?thesis using N by linarith
qed

lemma ceiling_count:
  "0 < N \<Longrightarrow> \<lceil>real k / real N\<rceil> = int ((k + N - 1) div N)"
proof -
  assume N: "0 < N"
  define c where "c = (k + N - 1) div N"
  have "k \<le> c * N" unfolding c_def by (rule count_covers[OF N])
  then have "real k \<le> real (c * N)" by (simp only: of_nat_le_iff)
  then have up: "real k / real N \<le> real c" using N by (simp add: pos_divide_le_eq)
  have "c * N \<le> k + N - 1" unfolding c_def by simp
  then have "c * N < k + N" using N by linarith
  then have "real (c * N) < real (k + N)" by (simp only: of_nat_less_iff)
  then have "(real c - 1) * real N < real k" by (simp add: algebra_simps)
  then have lo: "real c - 1 < real k / real N" using N by (simp add: pos_less_divide_eq)
  have "\<lceil>real k / real N\<rceil> = int c"
    by (rule ceiling_unique) (use lo up in simp_all)
  then show ?thesis by (simp add: c_def)
qed

lemma chunking_general:
  assumes n: "1 \<le> n"
  shows "\<exists>chunkedPages.
           chunk_loop xs n 0 [] = Some chunkedPages \<and>
           int (length chunkedPages) = \<lceil>real (length xs) / real_of_int n\<rceil> \<and>
           (\<forall>j < length chunkedPages.
              chunkedPages ! j = take (nat n) (drop (j * nat n) xs)) \<and>
           (\<forall>j. Suc j < length chunkedPages \<longrightarrow> length (chunkedPages ! j) = nat n) \<and>
           concat chunkedPages = xs"
proof -
  define N where "N = nat n"
  have N: "0 < N" and nN: "n = int N" using n by (simp_all add: N_def)
  define c where "c = (length xs + N - 1) div N"
  define cs where "cs = map (\<lambda>j. take N (drop (j * N) xs)) [0..<c]"
  have run: "chunk_loop xs n 0 [] = Some cs"
    unfolding nN cs_def c_def by (rule chunk_loop_closed[OF N])
  have len: "length cs = c" by (simp add: cs_def)
  have cnt: "int (length cs) = \<lceil>real (length xs) / real_of_int n\<rceil>"
    using ceiling_count[OF N, of "length xs"] by (simp add: len c_def nN)
  have nth: "\<forall>j < length cs. cs ! j = take N (drop (j * N) xs)"
    by (simp add: cs_def)
  have full: "\<forall>j. Suc j < length cs \<longrightarrow> length (cs ! j) = N"
  proof (intro allI impI)
    fix j assume j: "Suc j < length cs"
    then have "Suc j * N \<le> length xs"
      using count_before_last[OF N, of j "length xs"] by (simp add: len c_def)
    then show "length (cs ! j) = N" using j by (simp add: cs_def)
  qed
  have "concat cs = take (c * N) xs" unfolding cs_def by (rule concat_chunks_take)
  moreover have "length xs \<le> c * N" unfolding c_def by (rule count_covers[OF N])
  ultimately have cat: "concat cs = xs" by simp
  show ?thesis using run cnt nth full cat unfolding N_def[symmetric] by blast
qed

text \<open>
  C2. For every list of page items and every \<open>nUp \<ge> 1\<close>, the chunking loop over the
  selected items ends, and its result has \<open>\<lceil>k / n\<rceil>\<close> groups for \<open>k\<close> selected items;
  group \<open>j\<close> is the selected items at \<open>j * n\<close> up to \<open>(j + 1) * n\<close>; every group but the
  last has \<open>n\<close> items; and the groups put one after the other are the selected items in
  their order.
\<close>

theorem chunking:
  assumes "1 \<le> nUp layout"
  shows "\<exists>chunkedPages.
           chunk_loop (filter isSelected pages) (nUp layout) 0 [] = Some chunkedPages \<and>
           int (length chunkedPages)
             = \<lceil>real (length (filter isSelected pages)) / real_of_int (nUp layout)\<rceil> \<and>
           (\<forall>j < length chunkedPages.
              chunkedPages ! j
                = take (nat (nUp layout)) (drop (j * nat (nUp layout)) (filter isSelected pages))) \<and>
           (\<forall>j. Suc j < length chunkedPages \<longrightarrow>
              length (chunkedPages ! j) = nat (nUp layout)) \<and>
           concat chunkedPages = filter isSelected pages"
  using assms by (rule chunking_general)

theorem chunking_witness:
  "1 \<le> nUp layout2 \<and>
   chunk_loop (filter isSelected [page_a, page_off, page_a, page_a]) (nUp layout2) 0 []
     = Some [[page_a, page_a], [page_a]]"
proof -
  have n: "1 \<le> nUp layout2" by (simp add: layout2_def)
  have sel: "filter isSelected [page_a, page_off, page_a, page_a] = [page_a, page_a, page_a]"
    by (simp add: page_a_def page_off_def)
  obtain cs where r: "chunk_loop [page_a, page_a, page_a] (nUp layout2) 0 [] = Some cs"
    and nth: "\<forall>j < length cs. cs ! j
               = take (nat (nUp layout2)) (drop (j * nat (nUp layout2)) [page_a, page_a, page_a])"
    and l: "int (length cs) = \<lceil>real (length [page_a, page_a, page_a]) / real_of_int (nUp layout2)\<rceil>"
    using chunking[OF n, of "[page_a, page_off, page_a, page_a]"] unfolding sel by auto
  have "\<lceil>real (length [page_a, page_a, page_a]) / real_of_int (nUp layout2)\<rceil> = 2"
    by (simp add: layout2_def ceiling_eq_iff)
  then have l2: "length cs = 2" using l by simp
  then obtain a b where cs: "cs = [a, b]"
    by (auto simp add: numeral_2_eq_2 length_Suc_conv)
  have "cs ! 0 = [page_a, page_a]" "cs ! 1 = [page_a]"
    using nth l2 by (simp_all add: layout2_def)
  then show ?thesis using r cs n unfolding sel by simp
qed

subsection \<open>The empty selection\<close>

text \<open>
  C1, as amended. For every input whose selected subset is empty, \<open>generateFinalPdf\<close> fails
  with the error "No pages selected"; by then it has made one call into pdf-lib, the
  creation of the document, and nothing else: no sheet, no page composed, no image
  embedded or drawn, no serialization.
\<close>

theorem empty_selection_fails:
  "filter isSelected pages = [] \<Longrightarrow>
   generateFinalPdf e pages files layout = Some (Inl NoPagesSelected, [PdfCreate])"
  by (simp add: generateFinalPdf_def)

theorem empty_selection_fails_witness:
  "filter isSelected [] = [] \<and>
   generateFinalPdf env0 [] files0 layout2 = Some (Inl NoPagesSelected, [PdfCreate])"
  using empty_selection_fails[of "[]" env0 files0 layout2] by simp

text \<open>
  C1, as stated, fails: with one unselected page the selection is empty, and the events
  up to the error are not none, they hold the creation of the document.
\<close>

theorem empty_selection_creates_document:
  "filter isSelected [page_off] = [] \<and>
   generateFinalPdf env0 [page_off] files0 layout2 = Some (Inl NoPagesSelected, [PdfCreate]) \<and>
   generateFinalPdf env0 [page_off] files0 layout2 \<noteq> Some (Inl NoPagesSelected, [])"
  by (simp add: generateFinalPdf_def page_off_def page_a_def)

subsection \<open>The grid\<close>




subsection \<open>The working canvas\<close>

lemma canvas_size_floor:
  assumes "0 \<le> x" "x < 2147483648"
  shows "canvas_size dflt x = nat \<lfloor>x\<rfloor>"
proof -
  have lo: "0 \<le> \<lfloor>x\<rfloor>" using assms(1) by simp
  have hi: "\<lfloor>x\<rfloor> < 2147483648" using assms(2) by (simp add: floor_less_iff)
  have "\<lfloor>x\<rfloor> mod 2 ^ 32 = \<lfloor>x\<rfloor>" using lo hi by simp
  then have "to_unsigned_long x = \<lfloor>x\<rfloor>" using assms(1) by (simp add: to_unsigned_long_def)
  then show ?thesis using hi by (simp add: canvas_size_def)
qed

lemma renderPageToThumbnail_size:
  "renderPageToThumbnail e fileData pageIndex sc = Inr (raster, width, height) \<Longrightarrow>
   url_width raster = canvas_size 300 width \<and> url_height raster = canvas_size 150 height"
  by (auto simp add: renderPageToThumbnail_def Let_def split: sum.splits prod.splits if_splits)

lemma processPageImage_canvas:
  assumes "files (fileId pageItem) = Some fileData"
    and "renderPageToThumbnail e fileData (originalPageIndex pageItem) 1.5 = Inr (raster, width, height)"
    and "pageContext e"
  shows "\<exists>pixels. processPageImage e files pageItem =
           Inr (toDataURL e \<lparr>im_width = canvas_width (setup_canvas pageItem width height),
                               im_height = canvas_height (setup_canvas pageItem width height),
                               data = pixels\<rparr>)"
proof (cases "drawingDataUrl pageItem")
  case None
  then show ?thesis
    using assms by (simp add: processPageImage_def Let_def applyFiltersToContext_def) blast
next
  case (Some doodle)
  then show ?thesis
    using assms
    by (cases "doodle = []")
       ((simp add: processPageImage_def Let_def applyFiltersToContext_def, blast)+)
qed

text \<open>
  C5. For a page that is rasterized (its file is there, the rasterizer returns, the working
  canvas has a context; the viewport between 1 and \<open>2\<^sup>3\<^sup>1\<close> each way), the rasterized page
  is an image of \<open>\<lfloor>width\<rfloor>\<close> by \<open>\<lfloor>height\<rfloor>\<close> pixels, for the width and height the
  rasterizer returns, and the canvas that \<open>processPageImage\<close> composes and encodes is as wide
  as that image is high, and as high as it is wide, when the rotation is 90 or 270; it has
  the width and the height of that image when the rotation is 0 or 180.
\<close>

theorem canvas_swaps:
  assumes "files (fileId pageItem) = Some fileData"
    and "renderPageToThumbnail e fileData (originalPageIndex pageItem) 1.5 = Inr (raster, width, height)"
    and "pageContext e"
    and "1 \<le> width" and "width < 2147483648" and "1 \<le> height" and "height < 2147483648"
  shows "url_width raster = nat \<lfloor>width\<rfloor> \<and> url_height raster = nat \<lfloor>height\<rfloor> \<and>
         (\<exists>cw ch pixels.
            processPageImage e files pageItem
              = Inr (toDataURL e \<lparr>im_width = cw, im_height = ch, data = pixels\<rparr>) \<and>
            (rotation pageItem = 90 \<or> rotation pageItem = 270 \<longrightarrow>
               cw = url_height raster \<and> ch = url_width raster) \<and>
            (rotation pageItem = 0 \<or> rotation pageItem = 180 \<longrightarrow>
               cw = url_width raster \<and> ch = url_height raster))"
proof -
  have w: "canvas_size dflt width = nat \<lfloor>width\<rfloor>" for dflt
    using assms(4,5) by (intro canvas_size_floor) simp_all
  have h: "canvas_size dflt height = nat \<lfloor>height\<rfloor>" for dflt
    using assms(6,7) by (intro canvas_size_floor) simp_all
  from renderPageToThumbnail_size[OF assms(2)]
  have r: "url_width raster = nat \<lfloor>width\<rfloor>" "url_height raster = nat \<lfloor>height\<rfloor>"
    by (simp_all add: w h)
  from processPageImage_canvas[of files pageItem fileData e raster width height, OF assms(1,2,3)]
  obtain pixels where
    p: "processPageImage e files pageItem =
          Inr (toDataURL e \<lparr>im_width = canvas_width (setup_canvas pageItem width height),
                              im_height = canvas_height (setup_canvas pageItem width height),
                              data = pixels\<rparr>)" ..
  have s: "(rotation pageItem = 90 \<or> rotation pageItem = 270 \<longrightarrow>
              canvas_width (setup_canvas pageItem width height) = url_height raster \<and>
              canvas_height (setup_canvas pageItem width height) = url_width raster) \<and>
           (rotation pageItem = 0 \<or> rotation pageItem = 180 \<longrightarrow>
              canvas_width (setup_canvas pageItem width height) = url_width raster \<and>
              canvas_height (setup_canvas pageItem width height) = url_height raster)"
    by (auto simp add: setup_canvas_def isRotated90or270_def w h r)
  show ?thesis using r p s by blast
qed

lemma render_env0:
  "renderPageToThumbnail env0 [1, 2, 3] 0 1.5
     = Inr (\<lparr>url_width = 100, url_height = 200, url_data = [1, 2, 3]\<rparr>, 100.5, 200.75)"
  by (simp add: renderPageToThumbnail_def env0_def canvas_size_def to_unsigned_long_def Let_def)

lemma setup_canvas_env0:
  "setup_canvas page_a 100.5 200.75 = \<lparr>canvas_width = 200, canvas_height = 100\<rparr>"
  "setup_canvas page_off 100.5 200.75 = \<lparr>canvas_width = 100, canvas_height = 200\<rparr>"
  by (simp_all add: setup_canvas_def isRotated90or270_def page_a_def page_off_def
      canvas_size_def to_unsigned_long_def Let_def)

lemma processPageImage_page_a:
  "processPageImage env0 files0 page_a = Inr [200, 100, 200, 100, 50, 255, 0, 0, 0, 7]"
proof -
  have f: "files0 (fileId page_a) = Some [1, 2, 3]" "originalPageIndex page_a = 0"
    "drawingDataUrl page_a = None" "filters page_a = neutral"
    by (simp_all add: files0_def page_a_def)
  show ?thesis
    unfolding processPageImage_def f option.case render_env0 sum.case prod.case
      setup_canvas_env0
    by (simp add: env0_def applyFiltersToContext_def filter_loop_neutral)
qed

lemma processPageImage_page_off:
  "processPageImage env0 files0 page_off = Inr [100, 200, 200, 100, 50, 255, 0, 0, 0, 7]"
proof -
  have f: "files0 (fileId page_off) = Some [1, 2, 3]" "originalPageIndex page_off = 0"
    "drawingDataUrl page_off = None" "filters page_off = neutral"
    by (simp_all add: files0_def page_a_def page_off_def)
  show ?thesis
    unfolding processPageImage_def f option.case render_env0 sum.case prod.case
      setup_canvas_env0
    by (simp add: env0_def applyFiltersToContext_def filter_loop_neutral)
qed

theorem canvas_swaps_witness:
  "files0 (fileId page_a) = Some [1, 2, 3] \<and>
   renderPageToThumbnail env0 [1, 2, 3] (originalPageIndex page_a) 1.5
     = Inr (\<lparr>url_width = 100, url_height = 200, url_data = [1, 2, 3]\<rparr>, 100.5, 200.75) \<and>
   pageContext env0 \<and>
   (1::real) \<le> 100.5 \<and> (100.5::real) < 2147483648 \<and>
   (1::real) \<le> 200.75 \<and> (200.75::real) < 2147483648 \<and>
   rotation page_a = 90 \<and>
   (\<exists>pixels. processPageImage env0 files0 page_a
      = Inr (toDataURL env0 \<lparr>im_width = 200, im_height = 100, data = pixels\<rparr>)) \<and>
   processPageImage env0 files0 page_a = Inr [200, 100, 200, 100, 50, 255, 0, 0, 0, 7] \<and>
   rotation page_off = 0 \<and>
   (\<exists>pixels. processPageImage env0 files0 page_off
      = Inr (toDataURL env0 \<lparr>im_width = 100, im_height = 200, data = pixels\<rparr>)) \<and>
   processPageImage env0 files0 page_off = Inr [100, 200, 200, 100, 50, 255, 0, 0, 0, 7]"
proof -
  have fa: "files0 (fileId page_a) = Some [1, 2, 3]" "originalPageIndex page_a = 0"
    "rotation page_a = 90"
    by (simp_all add: files0_def page_a_def)
  have fo: "files0 (fileId page_off) = Some [1, 2, 3]" "originalPageIndex page_off = 0"
    "rotation page_off = 0"
    by (simp_all add: files0_def page_a_def page_off_def)
  have pc: "pageContext env0" by (simp add: env0_def)
  have ra: "renderPageToThumbnail env0 [1, 2, 3] (originalPageIndex page_a) 1.5
     = Inr (\<lparr>url_width = 100, url_height = 200, url_data = [1, 2, 3]\<rparr>, 100.5, 200.75)"
    unfolding fa by (rule render_env0)
  have ro: "renderPageToThumbnail env0 [1, 2, 3] (originalPageIndex page_off) 1.5
     = Inr (\<lparr>url_width = 100, url_height = 200, url_data = [1, 2, 3]\<rparr>, 100.5, 200.75)"
    unfolding fo by (rule render_env0)
  have b: "(1::real) \<le> 100.5" "(100.5::real) < 2147483648" "(1::real) \<le> 200.75"
    "(200.75::real) < 2147483648"
    by simp_all
  from canvas_swaps[of files0 page_a "[1, 2, 3]" env0 _ "100.5" "200.75", OF fa(1) ra pc b]
  have a: "\<exists>pixels. processPageImage env0 files0 page_a
      = Inr (toDataURL env0 \<lparr>im_width = 200, im_height = 100, data = pixels\<rparr>)"
    using fa(3) by auto
  from canvas_swaps[of files0 page_off "[1, 2, 3]" env0 _ "100.5" "200.75", OF fo(1) ro pc b]
  have o: "\<exists>pixels. processPageImage env0 files0 page_off
      = Inr (toDataURL env0 \<lparr>im_width = 100, im_height = 200, data = pixels\<rparr>)"
    using fo(3) by auto
  show ?thesis
    using fa ra pc a o processPageImage_page_a processPageImage_page_off fo(3) by simp
qed

subsection \<open>Placing an image in its cell\<close>























subsection \<open>The sheet\<close>







end
